theory Spec2Isabelle
  imports Complex_Main "HOL-Library.Product_Lexorder" "HOL-Library.Multiset"
begin

section \<open>PVAnalysis: phase-vocoder analysis and partial tracking\<close>

text \<open>
  A shallow embedding of \<^verbatim>\<open>PVAnalysis.py\<close>. Python and numpy floats are
  modelled by \<^typ>\<open>real\<close> (exact arithmetic, no rounding, no infinities);
  the one float value the claims speak about that is not a real number, numpy's
  \<^verbatim>\<open>nan\<close>, is a constructor of its own. Python's unbounded integers are
  \<^typ>\<open>int\<close>. Every exception the modelled code can raise is a value
  \<open>Inl e\<close> of the result.
\<close>

subsection \<open>Exceptions and Python helpers\<close>

text \<open>
  The first three are Python's exceptions. \<open>NanOperand\<close> is not an exception: it
  marks a run that goes on computing with a nan it has read, which a real-valued model
  cannot follow.
\<close>

datatype error = IndexError | ValueError | ZeroDivisionError | NanOperand

text \<open>A value read back from a track: a number, or numpy's \<^verbatim>\<open>nan\<close>.\<close>

datatype fval = NaN | Val real

text \<open>
  Subscripting a Python list or a numpy array with an integer. Positions
  \<open>0 .. len-1\<close> read from the front, positions \<open>-len .. -1\<close> from the
  back, and everything else raises IndexError.
\<close>

definition py_index :: "'a list \<Rightarrow> int \<Rightarrow> error + 'a" where
  "py_index xs i =
     (if 0 \<le> i \<and> i < int (length xs) then Inr (xs ! nat i)
      else if i < 0 \<and> - int (length xs) \<le> i then Inr (xs ! nat (int (length xs) + i))
      else Inl IndexError)"

subsection \<open>Logarithmic ratios\<close>

text \<open>
  \<^verbatim>\<open>dbconst = 20./np.log(10)\<close>: the slope of the linear approximation of
  \<open>20 log10\<close> at ratio 1.
\<close>

definition dbconst :: real where
  "dbconst = 20 / ln 10"

text \<open>
  \<^verbatim>\<open>def dpitch2st(f1,f2): return 17.312*(float(f2)/f1-1.0)\<close>.
  With Python floats \<open>f1 = 0\<close> raises ZeroDivisionError; on numpy arrays (the way
  \<open>add_frame\<close> calls it) the division yields an infinity or nan instead. Neither
  is a real number: the model is the formula itself, and every statement about it
  below takes \<open>f1 \<noteq> 0\<close>.
\<close>

definition dpitch2st :: "real \<Rightarrow> real \<Rightarrow> real" where
  "dpitch2st f1 f2 = 17.312 * (f2 / f1 - 1.0)"

subsection \<open>Results that may raise\<close>

definition bind_r :: "error + 'a \<Rightarrow> ('a \<Rightarrow> error + 'b) \<Rightarrow> error + 'b" where
  "bind_r m k = (case m of Inl e \<Rightarrow> Inl e | Inr v \<Rightarrow> k v)"

text \<open>A list comprehension whose body may raise: the first exception ends it.\<close>

fun map_r :: "('a \<Rightarrow> error + 'b) \<Rightarrow> 'a list \<Rightarrow> error + 'b list" where
  "map_r g [] = Inr []"
| "map_r g (a # as) = bind_r (g a) (\<lambda>b. bind_r (map_r g as) (\<lambda>bs. Inr (b # bs)))"

text \<open>A for-loop over a list whose body may raise, threading the state.\<close>

fun fold_r :: "('a \<Rightarrow> 's \<Rightarrow> error + 's) \<Rightarrow> 'a list \<Rightarrow> 's \<Rightarrow> error + 's" where
  "fold_r g [] s = Inr s"
| "fold_r g (a # as) s = bind_r (g a s) (fold_r g as)"

text \<open>
  \<^verbatim>\<open>xs[i] = v\<close> on a Python list, with the subscript read as by
  \<open>py_index\<close>.
\<close>

definition py_setitem :: "'a list \<Rightarrow> int \<Rightarrow> 'a \<Rightarrow> error + 'a list" where
  "py_setitem xs i v =
     (if 0 \<le> i \<and> i < int (length xs) then Inr (xs[nat i := v])
      else if i < 0 \<and> - int (length xs) \<le> i then Inr (xs[nat (int (length xs) + i) := v])
      else Inl IndexError)"

subsection \<open>numpy helpers\<close>

text \<open>
  \<^verbatim>\<open>np.argmin\<close>: the position of the first smallest entry; ValueError on an
  empty array.
\<close>

fun argmin_from :: "real \<Rightarrow> nat \<Rightarrow> nat \<Rightarrow> real list \<Rightarrow> nat" where
  "argmin_from best bi i [] = bi"
| "argmin_from best bi i (y # ys) =
     (if y < best then argmin_from y i (Suc i) ys else argmin_from best bi (Suc i) ys)"

fun np_argmin :: "real list \<Rightarrow> error + nat" where
  "np_argmin [] = Inl ValueError"
| "np_argmin (y # ys) = Inr (argmin_from y 0 1 ys)"

text \<open>\<^verbatim>\<open>np.argmax\<close>: the position of the first largest entry.\<close>

fun argmax_from :: "real \<Rightarrow> nat \<Rightarrow> nat \<Rightarrow> real list \<Rightarrow> nat" where
  "argmax_from best bi i [] = bi"
| "argmax_from best bi i (y # ys) =
     (if best < y then argmax_from y i (Suc i) ys else argmax_from best bi (Suc i) ys)"

fun np_argmax :: "real list \<Rightarrow> error + nat" where
  "np_argmax [] = Inl ValueError"
| "np_argmax (y # ys) = Inr (argmax_from y 0 1 ys)"

text \<open>
  \<^verbatim>\<open>np.argsort(a)\<close>: the positions of \<open>a\<close> in ascending order of their
  entries. numpy's default sort does not promise an order among equal entries; the model
  keeps them in their original order (a stable sort).
\<close>

definition np_argsort :: "real list \<Rightarrow> nat list" where
  "np_argsort a = sort_key (\<lambda>i. a ! i) [0..<length a]"

text \<open>
  \<^verbatim>\<open>a[idx]\<close> with an array of positions: IndexError when a position is outside
  the array (the positions the model passes are never negative).
\<close>

definition np_take :: "'a list \<Rightarrow> nat list \<Rightarrow> error + 'a list" where
  "np_take a idx =
     (if list_all (\<lambda>i. i < length a) idx then Inr (map (\<lambda>i. a ! i) idx) else Inl IndexError)"

text \<open>\<^verbatim>\<open>a[mask]\<close> with a boolean array of the same length.\<close>

definition np_mask :: "'a list \<Rightarrow> bool list \<Rightarrow> 'a list" where
  "np_mask a m = map fst (filter snd (zip a m))"

subsection \<open>RegPartial: one track\<close>

text \<open>
  The fields of the source's classes keep their names behind a prefix that names the
  class (\<open>rp_\<close> for RegPartial, \<open>ss_\<close> for SinSum, \<open>pv_\<close> for PV): a bare
  \<open>f\<close>, \<open>hop\<close> or \<open>end\<close> cannot be a constant of the theory.
\<close>

record RegPartial =
  rp_start_idx :: int
  rp_f :: "real list"
  rp_mag :: "real list"
  rp_ph :: "real list"

definition RegPartial_init :: "int \<Rightarrow> RegPartial" where
  "RegPartial_init istart = \<lparr>rp_start_idx = istart, rp_f = [], rp_mag = [], rp_ph = []\<rparr>"

definition append_point :: "real \<Rightarrow> real \<Rightarrow> real \<Rightarrow> RegPartial \<Rightarrow> RegPartial" where
  "append_point fv mv pv p =
     p\<lparr>rp_f := rp_f p @ [fv], rp_mag := rp_mag p @ [mv], rp_ph := rp_ph p @ [pv]\<rparr>"

definition prepend_point :: "real \<Rightarrow> real \<Rightarrow> real \<Rightarrow> RegPartial \<Rightarrow> RegPartial" where
  "prepend_point fv mv pv p =
     p\<lparr>rp_f := fv # rp_f p, rp_mag := mv # rp_mag p, rp_ph := pv # rp_ph p,
       rp_start_idx := rp_start_idx p - 1\<rparr>"

text \<open>
  \<^verbatim>\<open>
    def get_freq_at_frame(self,fr):
        relidx = fr - self.start_idx
        if relidx>=0:
            return self.f[relidx]
        else:
            return np.nan
  \<close>
  and the same on \<open>self.mag\<close>. The subscript is not below zero, so it reads from
  the front or raises.
\<close>

definition get_freq_at_frame :: "RegPartial \<Rightarrow> int \<Rightarrow> error + fval" where
  "get_freq_at_frame p fr =
     (let relidx = fr - rp_start_idx p
      in if relidx \<ge> 0 then bind_r (py_index (rp_f p) relidx) (\<lambda>v. Inr (Val v))
         else Inr NaN)"

definition get_mag_at_frame :: "RegPartial \<Rightarrow> int \<Rightarrow> error + fval" where
  "get_mag_at_frame p fr =
     (let relidx = fr - rp_start_idx p
      in if relidx \<ge> 0 then bind_r (py_index (rp_mag p) relidx) (\<lambda>v. Inr (Val v))
         else Inr NaN)"

subsection \<open>SinSum: the set of tracks\<close>

record SinSum =
  ss_partial :: "RegPartial list"
  ss_st :: "int list"
  ss_end :: "int list"
  ss_nfft :: int
  ss_hop :: int
  ss_sr :: real

definition SinSum_init :: "real \<Rightarrow> int \<Rightarrow> int \<Rightarrow> SinSum" where
  "SinSum_init sr nfft hop =
     \<lparr>ss_partial = [], ss_st = [], ss_end = [], ss_nfft = nfft, ss_hop = hop, ss_sr = sr\<rparr>"

text \<open>
  \<^verbatim>\<open>
    def add_empty_partial(self,idx):
        newpart = RegPartial(idx)
        self.partial.append(newpart)
        self.st.append(idx)
        self.end.append(idx)
        return newpart
  \<close>
  The returned object is the last entry of \<open>self.partial\<close>; the model's callers
  address it there.
\<close>

definition add_empty_partial :: "int \<Rightarrow> SinSum \<Rightarrow> SinSum" where
  "add_empty_partial idx ss =
     ss\<lparr>ss_partial := ss_partial ss @ [RegPartial_init idx],
        ss_st := ss_st ss @ [idx],
        ss_end := ss_end ss @ [idx]\<rparr>"

text \<open>
  \<^verbatim>\<open>
        for idx, ilims in enumerate(zip(self.st,self.end)):
            if fr>=ilims[0] and fr==ilims[1]:
                pidx.append(idx)
  \<close>
\<close>

definition get_partials_idx_ending_at_frame :: "SinSum \<Rightarrow> int \<Rightarrow> nat list" where
  "get_partials_idx_ending_at_frame ss fr =
     map fst (filter (\<lambda>(idx, ilims). fr \<ge> fst ilims \<and> fr = snd ilims)
       (enumerate 0 (zip (ss_st ss) (ss_end ss))))"

text \<open>
  The head of \<open>add_frame\<close>: the peaks in the order the loop takes them.
  \<^verbatim>\<open>
        irev = np.argsort(mag)
        idx = irev[::-1]
        idx=idx[np.logical_and(f[idx]>0,mag[idx]>0)]
        fsrt = f[idx]
        msrt = mag[idx]
        psrt = ph[idx]
  \<close>
  The loops run over \<^verbatim>\<open>zip(fsrt,msrt,psrt)\<close>.
\<close>

definition sorted_peaks ::
  "real list \<Rightarrow> real list \<Rightarrow> real list \<Rightarrow> error + (real \<times> real \<times> real) list" where
  "sorted_peaks f mag ph =
     (let irev = np_argsort mag; idx = rev irev
      in bind_r (np_take f idx) (\<lambda>fi.
         bind_r (np_take mag idx) (\<lambda>mi.
         let idx' = np_mask idx (map2 (\<lambda>a b. a > 0 \<and> b > 0) fi mi)
         in bind_r (np_take f idx') (\<lambda>fsrt.
            bind_r (np_take mag idx') (\<lambda>msrt.
            bind_r (np_take ph idx') (\<lambda>psrt.
            Inr (zip fsrt (zip msrt psrt))))))))"

text \<open>
  A peak that starts a track:
  \<^verbatim>\<open>
                    part = self.add_empty_partial(fr)
                    idx = -1
                ...
                part.append_point(fc,mc,pc)
                self.end[idx] = fr
  \<close>
  \<open>part\<close> is the last entry of \<open>self.partial\<close> and \<open>self.end[-1]\<close> the last
  entry of \<open>self.end\<close>, both just appended.
\<close>

definition open_track :: "int \<Rightarrow> real \<times> real \<times> real \<Rightarrow> SinSum \<Rightarrow> SinSum" where
  "open_track fr pk ss =
     (case pk of (fc, mc, pc) \<Rightarrow>
        let ss1 = add_empty_partial fr ss;
            ilast = length (ss_partial ss1) - 1
        in ss1\<lparr>ss_partial := (ss_partial ss1)[ilast := append_point fc mc pc (ss_partial ss1 ! ilast)],
               ss_end := (ss_end ss1)[length (ss_end ss1) - 1 := fr]\<rparr>)"

text \<open>
  One turn of the loop over the peaks when some track was open at \<open>fr - 1\<close>. The
  state is the SinSum and the array \<open>unused\<close>; \<open>allpidx\<close>, \<open>allpmag\<close> and
  \<open>allpf\<close> are fixed before the loop.
  \<^verbatim>\<open>
                pidx = allpidx[unused]
                if len(pidx)>0:
                    pmag = allpmag[unused]
                    pf = allpf[unused]
                    stonediff = abs(dpitch2st(pf,fc))
                    dbdiff = dbconst*(pmag/mc-1)
                    ovdiff = stonediff+abs(dbdiff)
                    nearest = np.argmin(ovdiff)
                    if stonediff[nearest] < maxpitchjmp:
                        idx = pidx[nearest]
                        part = self.partial[idx]
                        unused[nearest]=False
                    else:
                        part = self.add_empty_partial(fr)
                        idx = -1
                else:
                    part = self.add_empty_partial(fr)
                    idx = -1
                part.append_point(fc,mc,pc)
                self.end[idx] = fr
  \<close>
  \<open>nearest\<close> is a position in the masked arrays \<open>pidx\<close>, \<open>pmag\<close>, \<open>pf\<close>;
  the source writes \<open>unused[nearest]\<close>, the same position in the unmasked array.
\<close>

definition assign_peak ::
  "int \<Rightarrow> real \<Rightarrow> nat list \<Rightarrow> real list \<Rightarrow> real list \<Rightarrow> real \<times> real \<times> real
     \<Rightarrow> SinSum \<times> bool list \<Rightarrow> error + SinSum \<times> bool list" where
  "assign_peak fr maxpitchjmp allpidx allpmag allpf pk state =
     (case pk of (fc, mc, pc) \<Rightarrow>
      case state of (ss, unused) \<Rightarrow>
        let pidx = np_mask allpidx unused
        in if length pidx > 0 then
             let pmag = np_mask allpmag unused;
                 pf = np_mask allpf unused;
                 stonediff = map (\<lambda>p. \<bar>dpitch2st p fc\<bar>) pf;
                 dbdiff = map (\<lambda>m. dbconst * (m / mc - 1)) pmag;
                 ovdiff = map2 (\<lambda>s d. s + \<bar>d\<bar>) stonediff dbdiff
             in bind_r (np_argmin ovdiff) (\<lambda>nearest.
                bind_r (py_index stonediff (int nearest)) (\<lambda>sd.
                if sd < maxpitchjmp then
                  bind_r (py_index pidx (int nearest)) (\<lambda>idx.
                  bind_r (py_index (ss_partial ss) (int idx)) (\<lambda>part.
                  bind_r (py_setitem unused (int nearest) False) (\<lambda>unused'.
                  bind_r (py_setitem (ss_end ss) (int idx) fr) (\<lambda>end'.
                  Inr (ss\<lparr>ss_partial := (ss_partial ss)[idx := append_point fc mc pc part],
                          ss_end := end'\<rparr>, unused')))))
                else Inr (open_track fr pk ss, unused)))
           else Inr (open_track fr pk ss, unused))"

text \<open>Reading a number back from a track; a nan ends the model's run.\<close>

definition the_number :: "fval \<Rightarrow> error + real" where
  "the_number v = (case v of NaN \<Rightarrow> Inl NanOperand | Val r \<Rightarrow> Inr r)"

text \<open>
  \<^verbatim>\<open>
    def add_frame(self, fr, f, mag, ph, maxpitchjmp = 0.5):
        ...
        pidx = self.get_partials_idx_ending_at_frame(fr-1)
        if len(pidx)>0:
            pmag = [self.partial[ii].get_mag_at_frame(fr-1) for ii in pidx]
            allpmagl, pidx = zip(*sorted(zip(pmag,pidx),reverse=True))
            allpidx = np.array(pidx)
            allpmag = np.array(allpmagl)
            allpartials = [self.partial[ii] for ii in allpidx]
            allpf = np.array([pp.get_freq_at_frame(fr-1) for pp in allpartials])
            unused = np.ones_like(allpidx,dtype=bool)
            for fc,mc,pc in zip(fsrt,msrt,psrt):
                ...
        else:
            for fc,mc,pc in zip(fsrt,msrt,psrt):
                part = self.add_empty_partial(fr)
                idx = -1
                part.append_point(fc,mc,pc)
                self.end[idx] = fr
  \<close>
  \<^verbatim>\<open>sorted(..., reverse=True)\<close> orders the pairs (magnitude, position) from the
  largest down, by magnitude first and position second; the positions differ, so no two
  pairs are equal. In the states \<open>add_frame\<close> builds, the frequencies of a track are
  positive, so that \<open>dpitch2st\<close> never divides by zero, and \<open>mc\<close> is positive by
  the filter of \<open>sorted_peaks\<close>.
\<close>

definition add_frame ::
  "int \<Rightarrow> real list \<Rightarrow> real list \<Rightarrow> real list \<Rightarrow> real \<Rightarrow> SinSum \<Rightarrow> error + SinSum" where
  "add_frame fr f mag ph maxpitchjmp ss =
     bind_r (sorted_peaks f mag ph) (\<lambda>peaks.
       let pidx = get_partials_idx_ending_at_frame ss (fr - 1)
       in if length pidx > 0 then
            bind_r (map_r (\<lambda>ii. bind_r (py_index (ss_partial ss) (int ii)) (\<lambda>p.
                             bind_r (get_mag_at_frame p (fr - 1)) the_number)) pidx) (\<lambda>pmag.
            let srt = rev (sort (zip pmag pidx));
                allpidx = map snd srt;
                allpmag = map fst srt
            in bind_r (map_r (\<lambda>ii. bind_r (py_index (ss_partial ss) (int ii)) (\<lambda>p.
                             bind_r (get_freq_at_frame p (fr - 1)) the_number)) allpidx) (\<lambda>allpf.
               bind_r (fold_r (assign_peak fr maxpitchjmp allpidx allpmag allpf) peaks
                         (ss, replicate (length allpidx) True))
                 (\<lambda>state. Inr (fst state))))
          else Inr (fold (open_track fr) peaks ss))"

text \<open>
  The continuity invariant of the set of tracks: the three lists run in parallel, and for
  every track the recorded bounds span exactly its series, which have one length.
\<close>

definition track_continuous :: "RegPartial \<times> int \<times> int \<Rightarrow> bool" where
  "track_continuous t =
     (case t of (p, s, e) \<Rightarrow>
        e - s + 1 = int (length (rp_f p))
        \<and> length (rp_mag p) = length (rp_f p)
        \<and> length (rp_ph p) = length (rp_f p))"

definition continuity :: "SinSum \<Rightarrow> bool" where
  "continuity ss =
     (length (ss_st ss) = length (ss_partial ss)
      \<and> length (ss_end ss) = length (ss_partial ss)
      \<and> list_all track_continuous (zip (ss_partial ss) (zip (ss_st ss) (ss_end ss))))"

text \<open>
  Two tracks after frame 0 (100 Hz at magnitude 1, 200 Hz at magnitude 1/2), and what
  \<open>add_frame\<close> makes of them at frame 1 from three peaks.
\<close>

definition frame0_tracks :: SinSum where
  "frame0_tracks =
     \<lparr>ss_partial = [\<lparr>rp_start_idx = 0, rp_f = [100], rp_mag = [1], rp_ph = [0]\<rparr>,
                    \<lparr>rp_start_idx = 0, rp_f = [200], rp_mag = [1 / 2], rp_ph = [0]\<rparr>],
      ss_st = [0, 0], ss_end = [0, 0], ss_nfft = 1024, ss_hop = 512, ss_sr = 44100\<rparr>"

definition frame1_tracks :: SinSum where
  "frame1_tracks =
     \<lparr>ss_partial = [\<lparr>rp_start_idx = 0, rp_f = [100, 100], rp_mag = [1, 1], rp_ph = [0, 0]\<rparr>,
                    \<lparr>rp_start_idx = 0, rp_f = [200, 200, 200], rp_mag = [1 / 2, 1 / 2, 2 / 5],
                       rp_ph = [0, 0, 0]\<rparr>],
      ss_st = [0, 0], ss_end = [1, 1], ss_nfft = 1024, ss_hop = 512, ss_sr = 44100\<rparr>"

subsection \<open>PV: the analyzer\<close>

text \<open>\<^verbatim>\<open>pi2 = 2.0*np.pi\<close>\<close>

definition pi2 :: real where
  "pi2 = 2.0 * pi"

text \<open>
  \<^verbatim>\<open>np.round\<close>: to the nearest whole number, a tie going to the even one.
\<close>

definition np_round :: "real \<Rightarrow> real" where
  "np_round v =
     (let fl = \<lfloor>v\<rfloor>; d = v - of_int fl
      in of_int (if d < 1 / 2 then fl
                 else if 1 / 2 < d then fl + 1
                 else if even fl then fl else fl + 1))"

text \<open>
  The attributes \<open>PV.__init__\<close> sets. The sample rate is any number; \<open>nfft\<close>,
  \<open>hop\<close> and \<open>npks\<close> are integers. \<open>wfact\<close> is a square root that numpy
  answers with nan below zero.
\<close>

record PV =
  pv_x :: "real list"
  pv_nsamp :: int
  pv_sr :: real
  pv_nfft :: int
  pv_nfft2 :: int
  pv_hop :: int
  pv_peakthresh :: real
  pv_npeaks :: int
  pv_nframes :: int
  pv_win :: "real list"
  pv_wsum :: real
  pv_wsum2 :: real
  pv_wfact :: fval
  pv_fstep :: real
  pv_dt :: real
  pv_fbin :: "real list"
  pv_wfbin :: "real list"
  pv_oldfft :: "complex list"
  pv_t :: "real list"
  pv_f :: "real list list"
  pv_mag :: "real list list"
  pv_ph :: "real list list"

text \<open>
  \<^verbatim>\<open>
    def __init__(self, x, sr, nfft=1024, hop=None, npks=20, pkthresh=0.005, wind=np.hanning):
        self.x = np.array(x)
        self.nsamp = len(self.x)
        self.sr   = sr
        self.nfft = nfft
        self.nfft2 = nfft/2
        if hop is None:
            self.hop = self.nfft/2
        else:
            self.hop  = hop
        self.peakthresh = pkthresh
        self.npeaks = npks
        self.nframes = 0
        self.win = wind(nfft)
        self.wsum = sum(self.win)
        self.wsum2 = sum(self.win**2)
        self.wfact = np.sqrt(self.wsum2*self.nfft)/2.0
        self.fstep = float(self.sr)/float(self.nfft)
        self.dt = float(self.hop)/float(self.sr)
        self.fbin = np.arange(float(nfft))*self.fstep
        dthetabin = pi2*self.fbin*self.dt
        self.wfbin = np.round(dthetabin/pi2) * pi2
        self.oldfft = np.zeros(self.nfft2)
        self.t  = []
        self.f  = []
        self.ph = []
        self.mag= []
  \<close>
  The code is Python 2: \<open>nfft/2\<close> on integers is the floor division, as \<open>div\<close>
  on \<^typ>\<open>int\<close>. The window function \<open>wind\<close> is an argument. The statements
  that can raise are the two divisions of Python floats (ZeroDivisionError on a zero
  divisor) and \<open>np.zeros\<close> (ValueError on a negative size), in this order.
\<close>

definition PV_init ::
  "(int \<Rightarrow> real list) \<Rightarrow> real list \<Rightarrow> real \<Rightarrow> int \<Rightarrow> int option \<Rightarrow> int \<Rightarrow> real
     \<Rightarrow> error + PV" where
  "PV_init wind x sr nfft hop npks pkthresh =
     (let nfft2 = nfft div 2;
          hop' = (case hop of None \<Rightarrow> nfft div 2 | Some h \<Rightarrow> h);
          win = wind nfft;
          wsum = sum_list win;
          wsum2 = sum_list (map (\<lambda>w. w ^ 2) win);
          wfact = (if wsum2 * of_int nfft < 0 then NaN
                   else Val (sqrt (wsum2 * of_int nfft) / 2.0))
      in if nfft = 0 then Inl ZeroDivisionError
         else let fstep = sr / of_int nfft
         in if sr = 0 then Inl ZeroDivisionError
         else let dt = of_int hop' / sr;
                  fbin = map (\<lambda>k. of_nat k * fstep) [0..<nat nfft];
                  dthetabin = map (\<lambda>fb. pi2 * fb * dt) fbin;
                  wfbin = map (\<lambda>d. np_round (d / pi2) * pi2) dthetabin
         in if nfft2 < 0 then Inl ValueError
         else Inr \<lparr>pv_x = x, pv_nsamp = int (length x), pv_sr = sr, pv_nfft = nfft,
                   pv_nfft2 = nfft2, pv_hop = hop', pv_peakthresh = pkthresh,
                   pv_npeaks = npks, pv_nframes = 0, pv_win = win, pv_wsum = wsum,
                   pv_wsum2 = wsum2, pv_wfact = wfact, pv_fstep = fstep, pv_dt = dt,
                   pv_fbin = fbin, pv_wfbin = wfbin,
                   pv_oldfft = replicate (nat nfft2) 0,
                   pv_t = [], pv_f = [], pv_mag = [], pv_ph = []\<rparr>)"

text \<open>
  \<^verbatim>\<open>
    def dphase2freq(self, dph, nbin):
        dphw=dph + self.wfbin[nbin] + pi2*np.arange(-1,2)
        freq = dphw / self.dt / pi2
        ii = np.argmin(abs(self.fbin[nbin]-freq))
        return freq[ii]
  \<close>
  With \<open>dt = 0\<close> numpy divides to infinities and nan, which are not real numbers:
  the statements about \<open>dphase2freq\<close> take \<open>dt \<noteq> 0\<close>.
\<close>

definition dphase2freq :: "PV \<Rightarrow> real \<Rightarrow> int \<Rightarrow> error + real" where
  "dphase2freq pv dph nbin =
     bind_r (py_index (pv_wfbin pv) nbin) (\<lambda>w.
       let dphw = map (\<lambda>k. dph + w + pi2 * of_int k) [- 1, 0, 1];
           freq = map (\<lambda>d. d / pv_dt pv / pi2) dphw
       in bind_r (py_index (pv_fbin pv) nbin) (\<lambda>fb.
          bind_r (np_argmin (map (\<lambda>fq. \<bar>fb - fq\<bar>) freq)) (\<lambda>ii.
          py_index freq (int ii))))"

text \<open>
  The quantities of the claim about \<open>dphase2freq\<close>, written from its words: the
  centre frequency of bin \<open>b\<close>, \<open>fbin[b] = b sr / nfft\<close>; the whole-wrap factor
  \<open>wfbin[b] = round(fbin[b] dt) 2\<pi>\<close> with \<open>dt = hop / sr\<close>; and the candidate
  frequency \<open>(dph + wfbin[b] + k 2\<pi>) / (2\<pi> dt)\<close>.
\<close>

definition claim_fbin :: "real \<Rightarrow> int \<Rightarrow> int \<Rightarrow> real" where
  "claim_fbin sr nfft b = of_int b * (sr / of_int nfft)"

definition claim_wfbin :: "real \<Rightarrow> int \<Rightarrow> int \<Rightarrow> int \<Rightarrow> real" where
  "claim_wfbin sr nfft hp b = np_round (claim_fbin sr nfft b * (of_int hp / sr)) * (2 * pi)"

definition claim_candidate :: "real \<Rightarrow> int \<Rightarrow> int \<Rightarrow> int \<Rightarrow> real \<Rightarrow> int \<Rightarrow> real" where
  "claim_candidate sr nfft hp b dph k =
     (dph + claim_wfbin sr nfft hp b + of_int k * (2 * pi)) / (2 * pi * (of_int hp / sr))"

subsection \<open>PV.run_pv: the loop over the frames\<close>

text \<open>
  What \<open>calc_pv_frame\<close> returns: the lists \<open>f\<close>, \<open>mag\<close> and \<open>ph\<close> of one
  frame.
\<close>

type_synonym frame = "real list \<times> real list \<times> real list"

text \<open>
  \<^verbatim>\<open>f = np.zeros(self.npeaks); f[0:len(ff)]=ff\<close>: a row of \<open>npeaks\<close> zeros whose
  head is overwritten. The slice holds \<open>min(len(ff), npeaks)\<close> entries; numpy refuses
  a list of another length (ValueError), except that a list of one entry is broadcast
  (here into an empty slice only). \<open>np.zeros\<close> of a negative size is refused before.
\<close>

definition fill_row :: "int \<Rightarrow> real list \<Rightarrow> error + real list" where
  "fill_row npeaks v =
     (if int (length v) \<le> npeaks then Inr (v @ replicate (nat npeaks - length v) 0)
      else if npeaks = 0 \<and> length v = 1 then Inr []
      else Inl ValueError)"

text \<open>
  The state of the loop: the analyzer (its \<open>oldfft\<close> changes from frame to frame) and
  the lists \<open>allf\<close>, \<open>allmag\<close>, \<open>allph\<close> and \<open>t\<close>.
\<close>

record pv_run =
  run_pv_state :: PV
  run_allf :: "real list list"
  run_allmag :: "real list list"
  run_allph :: "real list list"
  run_t :: "real list"

text \<open>
  The body of the loop at position \<open>curpos\<close>.
  \<^verbatim>\<open>
            f = np.zeros(self.npeaks)
            mag = np.zeros(self.npeaks)
            ph = np.zeros(self.npeaks)
            ff, magf, phf = self.calc_pv_frame(curpos)
            f[0:len(ff)]=ff
            mag[0:len(magf)]=magf
            ph[0:len(phf)]=phf
            allf.append(f)
            allmag.append(mag)
            allph.append(ph)
            t.append((curpos+self.nfft/2.0)/self.sr)
  \<close>
  \<open>calc_pv_frame\<close> stands on numpy's FFT and on the PeakFinder module, which is not
  part of the file: it is the argument \<open>calc\<close>, which returns the frame and the
  spectrum kept as \<open>oldfft\<close>, or raises.
\<close>

definition run_pv_frame ::
  "(PV \<Rightarrow> int \<Rightarrow> error + frame \<times> complex list) \<Rightarrow> int \<Rightarrow> pv_run \<Rightarrow> error + pv_run" where
  "run_pv_frame calc curpos st =
     (let pv = run_pv_state st
      in if pv_npeaks pv < 0 then Inl ValueError
         else bind_r (calc pv curpos) (\<lambda>res.
              case res of ((ff, magf, phf), oldfft') \<Rightarrow>
              bind_r (fill_row (pv_npeaks pv) ff) (\<lambda>f.
              bind_r (fill_row (pv_npeaks pv) magf) (\<lambda>mag.
              bind_r (fill_row (pv_npeaks pv) phf) (\<lambda>ph.
              if pv_sr pv = 0 then Inl ZeroDivisionError
              else Inr \<lparr>run_pv_state = pv\<lparr>pv_oldfft := oldfft'\<rparr>,
                        run_allf = run_allf st @ [f],
                        run_allmag = run_allmag st @ [mag],
                        run_allph = run_allph st @ [ph],
                        run_t = run_t st @ [(of_int curpos + of_int (pv_nfft pv) / 2.0) / pv_sr pv]\<rparr>)))))"

text \<open>
  \<^verbatim>\<open>
        curpos = 0
        maxpos = self.nsamp - self.nfft
        while curpos < maxpos:
            ...
            curpos += self.hop
  \<close>
  With a hop that is not positive the loop need not end: the result is an option, and
  \<open>None\<close> is the run that never returns.
\<close>

partial_function (option) run_pv_loop ::
  "(PV \<Rightarrow> int \<Rightarrow> error + frame \<times> complex list) \<Rightarrow> int \<Rightarrow> int \<Rightarrow> pv_run \<Rightarrow> (error + pv_run) option" where
  "run_pv_loop calc maxpos curpos st =
     (if curpos < maxpos then
        (case run_pv_frame calc curpos st of
           Inl e \<Rightarrow> Some (Inl e)
         | Inr st' \<Rightarrow> run_pv_loop calc maxpos (curpos + pv_hop (run_pv_state st')) st')
      else Some (Inr st))"

definition run_pv_init :: "PV \<Rightarrow> pv_run" where
  "run_pv_init pv =
     \<lparr>run_pv_state = pv, run_allf = [], run_allmag = [], run_allph = [], run_t = []\<rparr>"

text \<open>
  \<^verbatim>\<open>
        self.f = np.array(allf)
        self.mag = np.array(allmag)
        self.ph = np.array(allph)
        self.t = np.array(t)
        self.nframes = len(t)
  \<close>
\<close>

definition run_pv_finish :: "pv_run \<Rightarrow> PV" where
  "run_pv_finish st =
     (run_pv_state st)
       \<lparr>pv_f := run_allf st, pv_mag := run_allmag st, pv_ph := run_allph st,
        pv_t := run_t st, pv_nframes := int (length (run_t st))\<rparr>"

definition run_pv ::
  "(PV \<Rightarrow> int \<Rightarrow> error + frame \<times> complex list) \<Rightarrow> PV \<Rightarrow> (error + PV) option" where
  "run_pv calc pv =
     map_option (\<lambda>r. bind_r r (\<lambda>st. Inr (run_pv_finish st)))
       (run_pv_loop calc (pv_nsamp pv - pv_nfft pv) 0 (run_pv_init pv))"

text \<open>
  The positions the loop visits, \<open>0, hop, 2 hop, \<dots>\<close> below
  \<open>maxpos = nsamp - nfft\<close>; and the positions the claim names, those with
  \<open>position + nfft \<le> nsamp\<close>.
\<close>

definition frame_positions :: "PV \<Rightarrow> int list" where
  "frame_positions pv =
     map (\<lambda>k. int k * pv_hop pv)
       [0..<nat ((pv_nsamp pv - pv_nfft pv + pv_hop pv - 1) div pv_hop pv)]"

definition claimed_positions :: "PV \<Rightarrow> int list" where
  "claimed_positions pv =
     filter (\<lambda>p. p + pv_nfft pv \<le> pv_nsamp pv)
       (map (\<lambda>k. int k * pv_hop pv) [0..<Suc (nat (pv_nsamp pv))])"

text \<open>A frame whose three lists fit a row of \<open>npeaks\<close> entries.\<close>

definition frame_fits :: "int \<Rightarrow> error + frame \<times> complex list \<Rightarrow> bool" where
  "frame_fits npeaks r =
     (case r of Inl e \<Rightarrow> False
      | Inr res \<Rightarrow> int (length (fst (fst res))) \<le> npeaks
          \<and> int (length (fst (snd (fst res)))) \<le> npeaks
          \<and> int (length (snd (snd (fst res)))) \<le> npeaks)"

text \<open>All rows of a matrix have \<open>n\<close> entries.\<close>

definition rows_ok :: "nat \<Rightarrow> real list list \<Rightarrow> bool" where
  "rows_ok n rows = list_all (\<lambda>r. length r = n) rows"

text \<open>A frame analysis that finds no peak and keeps the spectrum.\<close>

definition calc_silent :: "PV \<Rightarrow> int \<Rightarrow> error + frame \<times> complex list" where
  "calc_silent pv pos = Inr (([], [], []), pv_oldfft pv)"

subsection \<open>calc_pv_frame: the loops over the bins\<close>

text \<open>
  Both variants of \<open>calc_pv_frame\<close> start from the spectrum of the frame, which is
  numpy's: \<open>fx\<close>, the first \<open>nfft2\<close> bins of the FFT, and \<open>frat = fx / oldfft\<close>.
  The loops read three arrays of it, which are the arguments of the model:
  \<open>famp = abs(fx)\<close>, \<open>ang = np.angle(fx)\<close> and \<open>dang = np.angle(frat)\<close>. Where
  \<open>oldfft\<close> has a zero bin (in the first frame, everywhere) \<open>frat\<close> is not a number
  there; the model covers the frames whose arrays are numbers.

  \<^verbatim>\<open>a[i:j]\<close> on a list or an array: a negative bound counts from the end, and both
  bounds are cut to the list.
\<close>

definition py_slice :: "'a list \<Rightarrow> int \<Rightarrow> int \<Rightarrow> 'a list" where
  "py_slice xs a b =
     (let n = int (length xs);
          lo = (if a < 0 then max (a + n) 0 else min a n);
          hi = (if b < 0 then max (b + n) 0 else min b n)
      in take (nat (hi - lo)) (drop (nat lo) xs))"

text \<open>
  \<^verbatim>\<open>
                imin = max(nbin-wd,1)
                imax = min(nbin+wd,len(famp))
                mag.append(np.sqrt(sum(famp[imin:imax+1]**2)))
  \<close>
  with \<open>wd = 1\<close>.
\<close>

definition peak_mag :: "real list \<Rightarrow> int \<Rightarrow> real" where
  "peak_mag famp nbin =
     (let wd = 1;
          imin = max (nbin - wd) 1;
          imax = min (nbin + wd) (int (length famp))
      in sqrt (sum_list (map (\<lambda>a. a ^ 2) (py_slice famp imin (imax + 1)))))"

text \<open>
  \<open>PV.calc_pv_frame\<close>, the loop over the bins \<open>pk\<close> of the peak finder:
  \<^verbatim>\<open>
        for ipk, nbin in enumerate(pk):
            thisph = np.angle(fx[nbin])
            dph = np.angle(frat[nbin])
            freq = self.dphase2freq(dph,nbin)
            if freq > 0.0:
                f.append(freq)
                ...
                mag.append(np.sqrt(sum(famp[imin:imax+1]**2)))
                ph.append(thisph)
  \<close>
\<close>

definition peak_step ::
  "PV \<Rightarrow> real list \<Rightarrow> real list \<Rightarrow> real list \<Rightarrow> int \<Rightarrow> frame \<Rightarrow> error + frame" where
  "peak_step pv famp ang dang nbin fr =
     (case fr of (f, mag, ph) \<Rightarrow>
        bind_r (py_index ang nbin) (\<lambda>thisph.
        bind_r (py_index dang nbin) (\<lambda>dph.
        bind_r (dphase2freq pv dph nbin) (\<lambda>freq.
        if freq > 0.0 then Inr (f @ [freq], mag @ [peak_mag famp nbin], ph @ [thisph])
        else Inr (f, mag, ph)))))"

definition calc_pv_frame_peaks ::
  "PV \<Rightarrow> real list \<Rightarrow> real list \<Rightarrow> real list \<Rightarrow> int list \<Rightarrow> error + frame" where
  "calc_pv_frame_peaks pv famp ang dang pk =
     fold_r (peak_step pv famp ang dang) pk ([], [], [])"

text \<open>
  Python 2's \<open>round\<close>: to the nearest whole number, a tie going away from zero.
\<close>

definition py2_round :: "real \<Rightarrow> int" where
  "py2_round v = (if 0 \<le> v then \<lfloor>v + 1 / 2\<rfloor> else \<lceil>v - 1 / 2\<rceil>)"

text \<open>\<^verbatim>\<open>self.fmin = 30.0\<close> of \<open>PVHarmonic.__init__\<close>.\<close>

definition fmin :: real where
  "fmin = 30.0"

text \<open>
  \<open>PVHarmonic.calc_pv_frame\<close>, the loop over the candidate bins
  \<^verbatim>\<open>bins = np.round(np.arange(f0bin,self.nfft2-1,f0bin))\<close>, whole numbers that the
  model takes as integers:
  \<^verbatim>\<open>
        for ipk, nbin in enumerate(bins):
            if ipk>0:
                if f[0] > self.fmin:
                    corrbin = f[0]/self.sr*self.nfft*(ipk+1)
                    if corrbin < self.nfft2-1:
                        nbin = int(round(corrbin))
            thisph = np.angle(fx[nbin])
            dph = np.angle(frat[nbin])
            freq = self.dphase2freq(dph,nbin)
            f.append(freq)
            imin = max(nbin-wd,1)
            imax = min(nbin+wd,len(famp))
            mag.append(np.sqrt(sum(famp[imin:imax+1]**2)))
            ph.append(thisph)
  \<close>
\<close>

definition harmonic_bin :: "PV \<Rightarrow> nat \<Rightarrow> int \<Rightarrow> real list \<Rightarrow> error + int" where
  "harmonic_bin pv ipk nbin f =
     (if ipk > 0 then
        bind_r (py_index f 0) (\<lambda>f0.
        if f0 > fmin then
          (let corrbin = f0 / pv_sr pv * of_int (pv_nfft pv) * (of_nat ipk + 1)
           in if corrbin < of_int (pv_nfft2 pv - 1) then Inr (py2_round corrbin) else Inr nbin)
        else Inr nbin)
      else Inr nbin)"

definition harmonic_step ::
  "PV \<Rightarrow> real list \<Rightarrow> real list \<Rightarrow> real list \<Rightarrow> nat \<times> int \<Rightarrow> frame \<Rightarrow> error + frame" where
  "harmonic_step pv famp ang dang ib fr =
     (case ib of (ipk, nbin0) \<Rightarrow>
      case fr of (f, mag, ph) \<Rightarrow>
        bind_r (harmonic_bin pv ipk nbin0 f) (\<lambda>nbin.
        bind_r (py_index ang nbin) (\<lambda>thisph.
        bind_r (py_index dang nbin) (\<lambda>dph.
        bind_r (dphase2freq pv dph nbin) (\<lambda>freq.
        Inr (f @ [freq], mag @ [peak_mag famp nbin], ph @ [thisph]))))))"

definition calc_pv_frame_harmonic ::
  "PV \<Rightarrow> real list \<Rightarrow> real list \<Rightarrow> real list \<Rightarrow> int list \<Rightarrow> error + frame" where
  "calc_pv_frame_harmonic pv famp ang dang bins =
     fold_r (harmonic_step pv famp ang dang) (enumerate 0 bins) ([], [], [])"

text \<open>
  A row of \<open>PVHarmonic.run_pv\<close>:
  \<^verbatim>\<open>
            f = np.zeros(self.npeaks)
            ...
            nh = min(len(ff),len(f))
            f[0:nh]=ff[0:nh]
  \<close>
\<close>

definition fill_row_harmonic :: "int \<Rightarrow> real list \<Rightarrow> error + real list" where
  "fill_row_harmonic npeaks v =
     (if npeaks < 0 then Inl ValueError
      else let nh = min (length v) (nat npeaks)
           in Inr (take nh v @ replicate (nat npeaks - nh) 0))"

subsection \<open>Resynthesis\<close>

text \<open>
  The sample rate passed to \<open>synth\<close> is a Python number, an integer (as read from a
  sound file) or a float; the hop is an integer, since it sizes an array. The type
  matters: the code is Python 2, where \<open>hop/sr\<close> on two integers is the floor
  division and on a float the true division, and raises ZeroDivisionError on zero.
  Dividing a numpy array by \<open>sr\<close> is the true division in both cases.
\<close>

datatype pynum = PyInt int | PyFloat real

definition num_val :: "pynum \<Rightarrow> real" where
  "num_val n = (case n of PyInt i \<Rightarrow> of_int i | PyFloat r \<Rightarrow> r)"

definition py2_div :: "int \<Rightarrow> pynum \<Rightarrow> error + real" where
  "py2_div a n =
     (case n of
        PyInt i \<Rightarrow> if i = 0 then Inl ZeroDivisionError else Inr (of_int (a div i))
      | PyFloat r \<Rightarrow> if r = 0 then Inl ZeroDivisionError else Inr (of_int a / r))"

text \<open>\<^verbatim>\<open>np.cumsum\<close>: the running sums.\<close>

fun cumsum_from :: "real \<Rightarrow> real list \<Rightarrow> real list" where
  "cumsum_from acc [] = []"
| "cumsum_from acc (v # vs) = (acc + v) # cumsum_from (acc + v) vs"

definition np_cumsum :: "real list \<Rightarrow> real list" where
  "np_cumsum vs = cumsum_from 0 vs"

text \<open>\<^verbatim>\<open>np.arange(a, b)\<close> on whole numbers: \<open>a, a+1, \<dots>, b-1\<close>.\<close>

definition int_range :: "int \<Rightarrow> int \<Rightarrow> int list" where
  "int_range a b = map (\<lambda>k. a + int k) [0..<nat (b - a)]"

text \<open>
  \<^verbatim>\<open>np.interp(x, xp, fp)\<close>: the piecewise linear curve through the points
  \<open>(xp, fp)\<close>, held constant before the first and after the last; ValueError when
  \<open>xp\<close> and \<open>fp\<close> differ in length. numpy takes \<open>xp\<close> to be increasing and
  does not check it; for another \<open>xp\<close> the values returned here need not be numpy's,
  their number is.
\<close>

fun interp_at :: "real \<Rightarrow> (real \<times> real) list \<Rightarrow> real" where
  "interp_at v [] = 0"
| "interp_at v [(x0, y0)] = y0"
| "interp_at v ((x0, y0) # (x1, y1) # rest) =
     (if v \<le> x0 then y0
      else if v < x1 then y0 + (v - x0) * (y1 - y0) / (x1 - x0)
      else interp_at v ((x1, y1) # rest))"

definition np_interp :: "real list \<Rightarrow> real list \<Rightarrow> real list \<Rightarrow> error + real list" where
  "np_interp vs xp fp =
     (if length xp \<noteq> length fp \<or> xp = [] then Inl ValueError
      else Inr (map (\<lambda>v. interp_at v (zip xp fp)) vs))"

text \<open>
  \<^verbatim>\<open>
    def synth(self, sr, hop):
        iref  = np.argmax(self.mag)
        phref = self.ph[iref]
        sref = (iref+1)*hop
        tfr = (self.start_idx - 1 + np.arange(len(self.f)+2)) * float(hop)/sr
        ffr = self.f
        ffr=np.insert(ffr,0,ffr[0])
        ffr=np.append(ffr,ffr[-1])
        mfr = self.mag
        mfr=np.insert(mfr,0,0.0)
        mfr=np.append(mfr,0.0)
        tmin = min(tfr)-hop/sr
        tmax = max(tfr)+hop/sr
        t   = np.arange(round(tmin*sr),round(tmax*sr))/sr
        f   = np.interp(t,tfr,ffr)
        mag = np.interp(t,tfr,mfr)
        ph = np.cumsum(2*np.pi*f/sr)
        ph = ph-ph[sref]+phref
        return mag * np.cos(ph), (self.start_idx - 1)*hop
  \<close>
  \<open>tfr\<close> has at least two entries, so that \<open>min\<close> and \<open>max\<close> are those of a
  set that is not empty.
\<close>

definition RegPartial_synth :: "pynum \<Rightarrow> int \<Rightarrow> RegPartial \<Rightarrow> error + real list \<times> int" where
  "RegPartial_synth sr hop p =
     bind_r (np_argmax (rp_mag p)) (\<lambda>iref.
     bind_r (py_index (rp_ph p) (int iref)) (\<lambda>phref.
     let sref = (int iref + 1) * hop;
         tfr = map (\<lambda>k. of_int (rp_start_idx p - 1 + int k) * of_int hop / num_val sr)
                 [0..<length (rp_f p) + 2]
     in bind_r (py_index (rp_f p) 0) (\<lambda>ffirst.
        bind_r (py_index (rp_f p) (- 1)) (\<lambda>flast.
        let ffr = ffirst # rp_f p @ [flast];
            mfr = 0 # rp_mag p @ [0]
        in bind_r (py2_div hop sr) (\<lambda>hs.
           let tmin = Min (set tfr) - hs;
               tmax = Max (set tfr) + hs;
               t = map (\<lambda>k. of_int k / num_val sr)
                     (int_range (py2_round (tmin * num_val sr)) (py2_round (tmax * num_val sr)))
           in bind_r (np_interp t tfr ffr) (\<lambda>f.
              bind_r (np_interp t tfr mfr) (\<lambda>mag.
              let ph = np_cumsum (map (\<lambda>v. 2 * pi * v / num_val sr) f)
              in bind_r (py_index ph sref) (\<lambda>pr.
                 Inr (map2 (\<lambda>m q. m * cos q) mag (map (\<lambda>v. v - pr + phref) ph),
                      (rp_start_idx p - 1) * hop)))))))))"

text \<open>
  \<^verbatim>\<open>w[spl_st:spl_end] += wi\<close> with \<open>spl_end = spl_st + len(wi)\<close> and
  \<open>spl_st \<ge> 0\<close>: the slice is cut to the array, and numpy adds \<open>wi\<close> when it has
  the length of the slice, or one entry (broadcast); otherwise it raises ValueError.
\<close>

definition slice_add :: "real list \<Rightarrow> int \<Rightarrow> real list \<Rightarrow> error + real list" where
  "slice_add w spl_st wi =
     (let a = min (nat spl_st) (length w);
          b = min (nat (spl_st + int (length wi))) (length w);
          seg = take (b - a) (drop a w)
      in if length wi = length seg then Inr (take a w @ map2 (+) seg wi @ drop b w)
         else if length wi = 1 then Inr (take a w @ map (\<lambda>v. v + hd wi) seg @ drop b w)
         else Inl ValueError)"

text \<open>
  \<^verbatim>\<open>
    def synth(self,sr,hop):
        w = np.zeros((max(self.end)+1)*hop)
        for part in self.partial:
            wi, spl_st = part.synth(sr,hop)
            if spl_st>=0:
                spl_end = spl_st+len(wi)
                w[spl_st:spl_end]+= wi
        return w
  \<close>
  \<open>max\<close> of an empty list raises ValueError, and so does \<open>np.zeros\<close> of a negative
  size.
\<close>

definition synth_part :: "pynum \<Rightarrow> int \<Rightarrow> RegPartial \<Rightarrow> real list \<Rightarrow> error + real list" where
  "synth_part sr hop part w =
     bind_r (RegPartial_synth sr hop part) (\<lambda>r.
       case r of (wi, spl_st) \<Rightarrow> if spl_st \<ge> 0 then slice_add w spl_st wi else Inr w)"

definition SinSum_synth :: "pynum \<Rightarrow> int \<Rightarrow> SinSum \<Rightarrow> error + real list" where
  "SinSum_synth sr hop ss =
     (if ss_end ss = [] then Inl ValueError
      else let n = (Max (set (ss_end ss)) + 1) * hop
           in if n < 0 then Inl ValueError
              else fold_r (synth_part sr hop) (ss_partial ss) (replicate (nat n) 0))"

text \<open>
  A track that \<open>synth\<close> can place in a buffer of \<open>n\<close> samples: it holds a point,
  its three series have one length, and its last frame ends within the buffer.
\<close>

definition track_fits :: "int \<Rightarrow> nat \<Rightarrow> RegPartial \<Rightarrow> bool" where
  "track_fits hop n p =
     (rp_f p \<noteq> [] \<and> length (rp_mag p) = length (rp_f p)
      \<and> length (rp_ph p) = length (rp_f p)
      \<and> (rp_start_idx p + int (length (rp_f p))) * hop \<le> int n)"

text \<open>
  A set of tracks as \<open>add_frame\<close> is meant to keep it, with at least one track: the
  continuity invariant, each track starting where \<open>st\<close> says, at a frame that is not
  negative, and holding a point.
\<close>

definition synth_ready :: "SinSum \<Rightarrow> bool" where
  "synth_ready ss =
     (continuity ss
      \<and> ss_partial ss \<noteq> []
      \<and> map rp_start_idx (ss_partial ss) = ss_st ss
      \<and> list_all (\<lambda>s. 0 \<le> s) (ss_st ss)
      \<and> list_all (\<lambda>p. rp_f p \<noteq> []) (ss_partial ss))"

text \<open>One track of one point at frame 1.\<close>

definition synth_example :: SinSum where
  "synth_example =
     \<lparr>ss_partial = [\<lparr>rp_start_idx = 1, rp_f = [1], rp_mag = [1], rp_ph = [0]\<rparr>],
      ss_st = [1], ss_end = [1], ss_nfft = 4, ss_hop = 2, ss_sr = 4\<rparr>"

text \<open>
  An analyzer for the examples: six samples at sample rate 4, rectangular window, FFT
  size 4 and the default hop, 2.
\<close>

definition rect_window :: "int \<Rightarrow> real list" where
  "rect_window n = replicate (nat n) 1"

definition pv_example :: PV where
  "pv_example =
     \<lparr>pv_x = [0, 1, 0, - 1, 0, 1], pv_nsamp = 6, pv_sr = 4, pv_nfft = 4, pv_nfft2 = 2,
      pv_hop = 2, pv_peakthresh = 1 / 200, pv_npeaks = 20, pv_nframes = 0,
      pv_win = [1, 1, 1, 1], pv_wsum = 4, pv_wsum2 = 4, pv_wfact = Val 2, pv_fstep = 1,
      pv_dt = 1 / 2, pv_fbin = [0, 1, 2, 3], pv_wfbin = [0, 0, pi2, 2 * pi2],
      pv_oldfft = [0, 0], pv_t = [], pv_f = [], pv_mag = [], pv_ph = []\<rparr>"

section \<open>Properties\<close>

subsection \<open>Pitch distance\<close>

text \<open>
  C9. For every \<open>f > 0\<close>, \<open>dpitch2st f f = 0\<close>; and for a fixed \<open>f1 > 0\<close>
  the value \<open>dpitch2st f1 f2\<close> is monotonically increasing in the ratio
  \<open>f2 / f1\<close>: a larger ratio gives a strictly larger value, and an equal or
  larger ratio never a smaller one.
\<close>

theorem dpitch2st_zero_and_monotone:
  assumes "0 < f" and "0 < f1"
  shows "dpitch2st f f = 0
    \<and> (f2 / f1 < f2' / f1 \<longrightarrow> dpitch2st f1 f2 < dpitch2st f1 f2')
    \<and> (f2 / f1 \<le> f2' / f1 \<longrightarrow> dpitch2st f1 f2 \<le> dpitch2st f1 f2')"
  using assms by (simp add: dpitch2st_def)

theorem dpitch2st_zero_and_monotone_witness:
  "dpitch2st 440 440 = 0 \<and> dpitch2st 440 440 < dpitch2st 440 441
    \<and> dpitch2st 440 440 \<le> dpitch2st 440 440"
  using dpitch2st_zero_and_monotone [of 440 440 440 441]
    dpitch2st_zero_and_monotone [of 440 440 440 440]
  by simp

subsection \<open>Tracking peaks into tracks\<close>

lemma dbconst_pos: "0 < dbconst"
  by (simp add: dbconst_def)

lemma sorted_peaks_frame0:
  "sorted_peaks [100, 200] [1, 1 / 2] [0, 0] = Inr [(100, 1, 0), (200, 1 / 2, 0)]"
  by (simp add: sorted_peaks_def np_argsort_def np_take_def np_mask_def bind_r_def Let_def)

lemma sorted_peaks_frame1:
  "sorted_peaks [100, 200, 200] [1, 1 / 2, 2 / 5] [0, 0, 0]
     = Inr [(100, 1, 0), (200, 1 / 2, 0), (200, 2 / 5, 0)]"
  by (simp add: sorted_peaks_def np_argsort_def np_take_def np_mask_def bind_r_def Let_def
      upt_rec)

lemma add_frame_frame0:
  "add_frame 0 [100, 200] [1, 1 / 2] [0, 0] (1 / 2) (SinSum_init 44100 1024 512)
     = Inr frame0_tracks"
  by (simp add: add_frame_def sorted_peaks_frame0 bind_r_def
      get_partials_idx_ending_at_frame_def frame0_tracks_def SinSum_init_def open_track_def
      add_empty_partial_def append_point_def RegPartial_init_def Let_def)

lemma add_frame_frame1:
  "add_frame 1 [100, 200, 200] [1, 1 / 2, 2 / 5] [0, 0, 0] (1 / 2) frame0_tracks
     = Inr frame1_tracks"
  using dbconst_pos
  by (simp add: add_frame_def sorted_peaks_frame1 bind_r_def
      get_partials_idx_ending_at_frame_def frame0_tracks_def frame1_tracks_def open_track_def
      add_empty_partial_def append_point_def RegPartial_init_def Let_def assign_peak_def
      np_mask_def py_index_def py_setitem_def get_mag_at_frame_def get_freq_at_frame_def
      the_number_def dpitch2st_def; linarith)

text \<open>
  C1. The claim: after any sequence of \<open>add_frame\<close> calls every track satisfies
  \<open>end[i] - st[i] + 1 = len(f)\<close>, with the three series of one length. The code:
  from the empty SinSum, frame 0 with peaks (100 Hz, 1) and (200 Hz, 1/2) opens two
  tracks, and the invariant holds; frame 1 with peaks (100 Hz, 1), (200 Hz, 1/2) and
  (200 Hz, 2/5) then appends two points to the second track, whose bounds stay 0 and 1
  while it holds three points.
\<close>

theorem add_frame_breaks_continuity:
  "add_frame 0 [100, 200] [1, 1 / 2] [0, 0] (1 / 2) (SinSum_init 44100 1024 512)
     = Inr frame0_tracks
   \<and> continuity frame0_tracks
   \<and> add_frame 1 [100, 200, 200] [1, 1 / 2, 2 / 5] [0, 0, 0] (1 / 2) frame0_tracks
     = Inr frame1_tracks
   \<and> \<not> continuity frame1_tracks
   \<and> ss_end frame1_tracks ! 1 - ss_st frame1_tracks ! 1 + 1 = 2
   \<and> length (rp_f (ss_partial frame1_tracks ! 1)) = 3"
  by (simp add: add_frame_frame0 add_frame_frame1)
    (simp add: continuity_def track_continuous_def frame0_tracks_def frame1_tracks_def)

text \<open>
  C2. The claim: within one \<open>add_frame\<close> call a track open at \<open>fr - 1\<close> receives
  at most one peak, a claimed track leaving the candidates of every later peak. The
  code: both tracks of \<open>frame0_tracks\<close> are open at frame 0. At frame 1 the loop
  gives the peak (100 Hz, 1) to the first track and the peak (200 Hz, 1/2) to the
  second; after these two turns \<open>unused\<close> is \<open>[False, True]\<close>, the second track
  still a candidate, and the whole call appends two of the frame's peaks to it.
\<close>

theorem add_frame_claimed_track_reused:
  "get_partials_idx_ending_at_frame frame0_tracks 0 = [0, 1]
   \<and> map_sum id snd
         (fold_r (assign_peak 1 (1 / 2) [0, 1] [1, 1 / 2] [100, 200])
            [(100, 1, 0), (200, 1 / 2, 0)] (frame0_tracks, [True, True]))
       = Inr [False, True]
   \<and> add_frame 1 [100, 200, 200] [1, 1 / 2, 2 / 5] [0, 0, 0] (1 / 2) frame0_tracks
       = Inr frame1_tracks
   \<and> rp_f (ss_partial frame0_tracks ! 1) = [200]
   \<and> rp_f (ss_partial frame1_tracks ! 1) = [200, 200, 200]"
  using dbconst_pos
  by (simp add: add_frame_frame1)
    (simp add: get_partials_idx_ending_at_frame_def frame0_tracks_def frame1_tracks_def
      assign_peak_def np_mask_def py_index_def py_setitem_def bind_r_def dpitch2st_def
      append_point_def Let_def; linarith)

subsection \<open>The order of the peaks\<close>

lemma np_mask_map2:
  "np_mask idx (map2 h (map g1 idx) (map g2 idx)) = filter (\<lambda>i. h (g1 i) (g2 i)) idx"
  by (induction idx) (auto simp: np_mask_def)

lemma set_np_argsort: "set (np_argsort a) = {0..<length a}"
  by (simp add: np_argsort_def)

lemma mset_np_argsort: "mset (np_argsort a) = mset [0..<length a]"
  by (simp add: np_argsort_def)

lemma np_take_ok: "set idx \<subseteq> {0..<length a} \<Longrightarrow> np_take a idx = Inr (map (\<lambda>i. a ! i) idx)"
  by (auto simp: np_take_def list_all_iff)

lemma zip3_map:
  "zip (map a xs) (zip (map b xs) (map c xs)) = map (\<lambda>i. (a i, b i, c i)) xs"
  by (induction xs) auto

lemma sorted_peaks_eq:
  assumes "length f = length mag" and "length ph = length mag"
  shows "sorted_peaks f mag ph =
    Inr (map (\<lambda>i. (f ! i, mag ! i, ph ! i))
          (filter (\<lambda>i. f ! i > 0 \<and> mag ! i > 0) (rev (np_argsort mag))))"
proof -
  let ?idx = "rev (np_argsort mag)"
  let ?idx' = "filter (\<lambda>i. f ! i > 0 \<and> mag ! i > 0) ?idx"
  have s: "set ?idx \<subseteq> {0..<length mag}" by (simp add: set_np_argsort)
  then have s': "set ?idx' \<subseteq> {0..<length mag}" by auto
  have 1: "np_take f ?idx = Inr (map (\<lambda>i. f ! i) ?idx)"
    and 2: "np_take mag ?idx = Inr (map (\<lambda>i. mag ! i) ?idx)"
    using s assms by (simp_all add: np_take_ok)
  have 3: "np_take f ?idx' = Inr (map (\<lambda>i. f ! i) ?idx')"
    and 4: "np_take mag ?idx' = Inr (map (\<lambda>i. mag ! i) ?idx')"
    and 5: "np_take ph ?idx' = Inr (map (\<lambda>i. ph ! i) ?idx')"
    using s' assms by (simp_all add: np_take_ok)
  show ?thesis
    unfolding sorted_peaks_def Let_def
    by (simp only: 1 2 bind_r_def sum.case np_mask_map2 3 4 5 zip3_map)
qed

lemma zip3_nth:
  "length f = n \<Longrightarrow> length mag = n \<Longrightarrow> length ph = n \<Longrightarrow>
   map (\<lambda>i. (f ! i, mag ! i, ph ! i)) [0..<n] = zip f (zip mag ph)"
  by (rule nth_equalityI) auto

lemma sorted_desc: "sorted_wrt (\<lambda>i j. mag ! i \<ge> mag ! j) (rev (np_argsort mag))"
proof -
  have "sorted (map (\<lambda>i. mag ! i) (np_argsort mag))"
    unfolding np_argsort_def by (rule sorted_sort_key)
  then have "sorted_wrt (\<lambda>i j. mag ! i \<le> mag ! j) (np_argsort mag)"
    by (simp add: sorted_wrt_map)
  then show ?thesis
    by (simp add: sorted_wrt_rev)
qed

text \<open>
  C8. \<open>add_frame\<close> first discards every entry whose frequency or magnitude is not
  positive and then takes the surviving peaks in order of descending magnitude: for
  arrays of one length, the list the loops of \<open>add_frame\<close> run over exists, holds
  exactly the entries with positive frequency and positive magnitude (each as often as
  the input does), and is sorted by descending magnitude; when no track is open at
  \<open>fr - 1\<close>, \<open>add_frame\<close> opens one track per surviving peak in that order.
\<close>

theorem sorted_peaks_filtered_descending:
  assumes "length f = length mag" and "length ph = length mag"
  shows "\<exists>peaks. sorted_peaks f mag ph = Inr peaks
     \<and> mset peaks = mset (filter (\<lambda>(fv, mv, pv). fv > 0 \<and> mv > 0) (zip f (zip mag ph)))
     \<and> sorted_wrt (\<lambda>a b. fst (snd a) \<ge> fst (snd b)) peaks
     \<and> (get_partials_idx_ending_at_frame ss (fr - 1) = []
          \<longrightarrow> add_frame fr f mag ph thr ss = Inr (fold (open_track fr) peaks ss))"
proof -
  let ?g = "\<lambda>i. (f ! i, mag ! i, ph ! i)"
  let ?P = "\<lambda>i. f ! i > 0 \<and> mag ! i > 0"
  let ?Q = "\<lambda>(fv :: real, mv :: real, pv :: real). fv > 0 \<and> mv > 0"
  let ?peaks = "map ?g (filter ?P (rev (np_argsort mag)))"
  have eq: "sorted_peaks f mag ph = Inr ?peaks"
    using assms by (rule sorted_peaks_eq)
  have PQ: "?P = ?Q \<circ> ?g" by (auto simp: fun_eq_iff)
  have "mset ?peaks = image_mset ?g (filter_mset ?P (mset (rev (np_argsort mag))))"
    by simp
  also have "\<dots> = image_mset ?g (filter_mset ?P (mset [0..<length mag]))"
    by (simp add: mset_np_argsort)
  also have "\<dots> = mset (filter ?Q (map ?g [0..<length mag]))"
    by (simp add: PQ filter_map del: mset_upt)
  also have "map ?g [0..<length mag] = zip f (zip mag ph)"
    using assms by (simp add: zip3_nth)
  finally have m: "mset ?peaks = mset (filter ?Q (zip f (zip mag ph)))" .
  have "sorted_wrt (\<lambda>i j. mag ! i \<ge> mag ! j) (filter ?P (rev (np_argsort mag)))"
    by (rule sorted_wrt_filter) (rule sorted_desc)
  then have srt: "sorted_wrt (\<lambda>a b. fst (snd a) \<ge> fst (snd b)) ?peaks"
    by (simp add: sorted_wrt_map)
  have af: "get_partials_idx_ending_at_frame ss (fr - 1) = []
          \<longrightarrow> add_frame fr f mag ph thr ss = Inr (fold (open_track fr) ?peaks ss)"
    by (simp add: add_frame_def eq bind_r_def)
  from eq m srt af show ?thesis by blast
qed

theorem sorted_peaks_filtered_descending_witness:
  "sorted_peaks [100, 0, 300, 200] [1 / 2, 1, 2, 0] [1, 2, 3, 4]
      = Inr [(300, 2, 3), (100, 1 / 2, 1)]
   \<and> add_frame 0 [100, 0, 300, 200] [1 / 2, 1, 2, 0] [1, 2, 3, 4] (1 / 2) (SinSum_init 8 8 4)
      = Inr \<lparr>ss_partial = [\<lparr>rp_start_idx = 0, rp_f = [300], rp_mag = [2], rp_ph = [3]\<rparr>,
                           \<lparr>rp_start_idx = 0, rp_f = [100], rp_mag = [1 / 2], rp_ph = [1]\<rparr>],
              ss_st = [0, 0], ss_end = [0, 0], ss_nfft = 8, ss_hop = 4, ss_sr = 8\<rparr>"
proof -
  have sp: "sorted_peaks [100, 0, 300, 200] [1 / 2, 1, 2, 0] [1, 2, 3, 4]
      = Inr [(300, 2, 3), (100, 1 / 2, 1)]"
    by (simp add: sorted_peaks_def np_argsort_def np_take_def np_mask_def bind_r_def Let_def upt_rec)
  have e: "get_partials_idx_ending_at_frame (SinSum_init 8 8 4) (0 - 1) = []"
    by (simp add: get_partials_idx_ending_at_frame_def SinSum_init_def)
  from sorted_peaks_filtered_descending [of "[100, 0, 300, 200]" "[1 / 2, 1, 2, 0]" "[1, 2, 3, 4]"
      "SinSum_init 8 8 4" 0 "1 / 2"]
  obtain peaks where p: "sorted_peaks [100, 0, 300, 200] [1 / 2, 1, 2, 0] [1, 2, 3, 4] = Inr peaks"
    and a: "add_frame 0 [100, 0, 300, 200] [1 / 2, 1, 2, 0] [1, 2, 3, 4] (1 / 2) (SinSum_init 8 8 4)
       = Inr (fold (open_track 0) peaks (SinSum_init 8 8 4))"
    using e by auto
  from p sp have "peaks = [(300, 2, 3), (100, 1 / 2, 1)]" by simp
  with a sp show ?thesis
    by (simp add: SinSum_init_def open_track_def add_empty_partial_def append_point_def
      RegPartial_init_def Let_def)
qed

subsection \<open>Constructing the analyzer\<close>

lemma PV_init_fields:
  assumes "PV_init wind x sr nfft hop npks pkthresh = Inr pv"
  shows "0 < nfft" and "sr \<noteq> 0"
    and "pv_dt pv = of_int (pv_hop pv) / sr"
    and "pv_fbin pv = map (\<lambda>k. of_nat k * (sr / of_int nfft)) [0..<nat nfft]"
    and "pv_wfbin pv = map (\<lambda>k. np_round (pi2 * (of_nat k * (sr / of_int nfft)) * pv_dt pv / pi2) * pi2) [0..<nat nfft]"
  using assms
  by (auto simp: PV_init_def Let_def o_def split: if_splits)

lemma argmin_from_least:
  assumes "bi < length pre" and "best = pre ! bi" and "\<forall>z\<in>set pre. best \<le> z"
  shows "argmin_from best bi (length pre) ys < length (pre @ ys)
    \<and> (\<forall>z\<in>set (pre @ ys). (pre @ ys) ! argmin_from best bi (length pre) ys \<le> z)"
  using assms
proof (induction ys arbitrary: pre best bi)
  case Nil
  then show ?case by simp
next
  case (Cons y ys)
  show ?case
  proof (cases "y < best")
    case True
    have "argmin_from y (length pre) (length (pre @ [y])) ys < length ((pre @ [y]) @ ys)
      \<and> (\<forall>z\<in>set ((pre @ [y]) @ ys).
            ((pre @ [y]) @ ys) ! argmin_from y (length pre) (length (pre @ [y])) ys \<le> z)"
      using Cons.prems True by (intro Cons.IH) (auto simp: nth_append)
    with True show ?thesis by simp
  next
    case False
    have "argmin_from best bi (length (pre @ [y])) ys < length ((pre @ [y]) @ ys)
      \<and> (\<forall>z\<in>set ((pre @ [y]) @ ys).
            ((pre @ [y]) @ ys) ! argmin_from best bi (length (pre @ [y])) ys \<le> z)"
      using Cons.prems False by (intro Cons.IH) (auto simp: nth_append)
    with False show ?thesis by simp
  qed
qed

lemma np_argmin_least:
  assumes "xs \<noteq> []"
  shows "\<exists>i<length xs. np_argmin xs = Inr i \<and> (\<forall>z\<in>set xs. xs ! i \<le> z)"
proof -
  from assms obtain y ys where xs: "xs = y # ys" by (cases xs) auto
  from argmin_from_least [of 0 "[y]" y ys]
  show ?thesis by (simp add: xs)
qed

lemma pi2_pos: "0 < pi2" by (simp add: pi2_def)

lemma np_round_examples:
  "np_round 0 = 0" "np_round (1 / 2) = 0" "np_round 1 = 1" "np_round (3 / 2) = 2"
  by (simp_all add: np_round_def Let_def)

lemma PV_init_example:
  "PV_init rect_window [0, 1, 0, - 1, 0, 1] 4 4 None 20 (1 / 200) = Inr pv_example"
proof -
  have u: "[0..<4] = [0, 1, 2, 3]" by (simp add: upt_rec)
  have s: "sqrt 16 = 4" using real_sqrt_abs [of 4] by simp
  have r: "replicate 4 (1::real) = [1, 1, 1, 1]" "replicate 2 (0::complex) = [0, 0]"
    by (simp_all add: numeral_eq_Suc)
  show ?thesis
    using pi2_pos
    by (simp add: PV_init_def pv_example_def rect_window_def Let_def u s r np_round_examples)
qed

text \<open>
  C6, as the code has it. \<open>PV.__init__\<close> validates nothing. It raises exactly when
  the FFT size is not positive or the sample rate is zero: \<open>float(sr)/float(nfft)\<close>
  and \<open>float(hop)/float(sr)\<close> divide by zero, and \<open>np.zeros(nfft/2)\<close> refuses a
  negative size. A negative sample rate and a hop that is not positive construct an
  analyzer.
\<close>

theorem PV_init_fails_iff:
  "isl (PV_init wind x sr nfft hop npks pkthresh) = (nfft \<le> 0 \<or> sr = 0)"
  by (auto simp: PV_init_def Let_def)

text \<open>
  C6, as the claim states it, fails: sample rate 44100, FFT size 1024 and hop 0
  construct an analyzer.
\<close>

theorem PV_init_accepts_nonpositive:
  "\<not> (\<forall>wind x sr nfft hop npks pkthresh.
        sr \<le> 0 \<or> nfft \<le> 0 \<or> (\<exists>h. hop = Some h \<and> h \<le> 0)
        \<longrightarrow> isl (PV_init wind x sr nfft hop npks pkthresh))"
proof
  assume a: "\<forall>wind x sr nfft hop npks pkthresh.
        sr \<le> 0 \<or> nfft \<le> 0 \<or> (\<exists>h. hop = Some h \<and> h \<le> 0)
        \<longrightarrow> isl (PV_init wind x sr nfft hop npks pkthresh)"
  have "isl (PV_init rect_window [] 44100 1024 (Some 0) 20 (1 / 200))"
    by (rule a [rule_format]) simp
  then show False by (simp add: PV_init_fails_iff)
qed

subsection \<open>Unwrapping the phase difference\<close>

text \<open>
  C7. For an analyzer that \<open>PV.__init__\<close> has built, with a hop that is not zero, and
  for every bin \<open>0 \<le> b < nfft\<close> and every phase difference \<open>dph\<close>,
  \<open>dphase2freq\<close> returns one of the three candidates
  \<open>(dph + wfbin[b] + k 2\<pi>) / (2\<pi> dt)\<close>, \<open>k\<close> in \<open>{-1, 0, 1}\<close>, and no
  candidate is nearer to \<open>fbin[b]\<close> than the one returned.
\<close>

theorem dphase2freq_nearest_candidate:
  assumes "PV_init wind x sr nfft hop npks pkthresh = Inr pv"
    and "pv_hop pv \<noteq> 0" and "0 \<le> b" and "b < nfft"
  shows "\<exists>k\<in>{- 1, 0, 1}.
      dphase2freq pv dph b = Inr (claim_candidate sr nfft (pv_hop pv) b dph k)
      \<and> (\<forall>k'\<in>{- 1, 0, 1}.
            \<bar>claim_fbin sr nfft b - claim_candidate sr nfft (pv_hop pv) b dph k\<bar>
            \<le> \<bar>claim_fbin sr nfft b - claim_candidate sr nfft (pv_hop pv) b dph k'\<bar>)"
proof -
  note F = PV_init_fields [OF assms(1)]
  have bn: "nat b < nat nfft" using assms(3,4) by simp
  have len: "int (length (pv_fbin pv)) = nfft" "int (length (pv_wfbin pv)) = nfft"
    using F(1) by (simp_all add: F(4,5))
  have dt0: "pv_dt pv \<noteq> 0" using F(2) assms(2) by (simp add: F(3))
  have fb: "py_index (pv_fbin pv) b = Inr (claim_fbin sr nfft b)"
    using assms(3,4) bn by (simp add: py_index_def len) (simp add: F(4) claim_fbin_def)
  have wf: "py_index (pv_wfbin pv) b = Inr (claim_wfbin sr nfft (pv_hop pv) b)"
    using assms(3,4) bn pi2_pos
    by (simp add: py_index_def len) (simp add: F(5) F(3) claim_wfbin_def claim_fbin_def pi2_def)
  have c: "(dph + claim_wfbin sr nfft (pv_hop pv) b + pi2 * of_int k) / pv_dt pv / pi2
      = claim_candidate sr nfft (pv_hop pv) b dph k" for k
    by (simp add: claim_candidate_def F(3) pi2_def mult.commute)
  define freq where "freq = map (\<lambda>k. claim_candidate sr nfft (pv_hop pv) b dph k) [- 1, 0, 1]"
  define ds where "ds = map (\<lambda>fq. \<bar>claim_fbin sr nfft b - fq\<bar>) freq"
  have "ds \<noteq> []" by (simp add: ds_def freq_def)
  from np_argmin_least [OF this] obtain i where i: "i < length ds" "np_argmin ds = Inr i"
    and least: "\<forall>z\<in>set ds. ds ! i \<le> z" by blast
  have i3: "i < 3" using i(1) by (simp add: ds_def freq_def)
  have fq: "map (\<lambda>d. d / pv_dt pv / pi2)
       (map (\<lambda>k. dph + claim_wfbin sr nfft (pv_hop pv) b + pi2 * of_int k) [- 1, 0, 1]) = freq"
    unfolding freq_def using c [of "- 1"] c [of 0] c [of 1] by simp
  have pf: "py_index freq (int i) = Inr (freq ! i)"
    using i3 by (simp add: py_index_def freq_def)
  have d: "dphase2freq pv dph b = Inr (freq ! i)"
    unfolding dphase2freq_def Let_def
    by (simp only: wf fb bind_r_def sum.case fq ds_def [symmetric] i(2) pf)
  have dsi: "ds ! i = \<bar>claim_fbin sr nfft b - freq ! i\<bar>"
    using i(1) by (simp add: ds_def)
  have m: "\<forall>k'\<in>{- 1, 0, 1}.
      \<bar>claim_fbin sr nfft b - freq ! i\<bar>
        \<le> \<bar>claim_fbin sr nfft b - claim_candidate sr nfft (pv_hop pv) b dph k'\<bar>"
    using least unfolding dsi by (simp add: ds_def freq_def)
  from i3 consider "i = 0" | "i = 1" | "i = 2" by linarith
  then show ?thesis
  proof cases
    case 1
    with d m show ?thesis by (intro bexI [of _ "- 1"]) (simp_all add: freq_def)
  next
    case 2
    with d m show ?thesis by (intro bexI [of _ 0]) (simp_all add: freq_def)
  next
    case 3
    with d m show ?thesis by (intro bexI [of _ 1]) (simp_all add: freq_def)
  qed
qed


theorem dphase2freq_nearest_candidate_witness:
  "PV_init rect_window [0, 1, 0, - 1, 0, 1] 4 4 None 20 (1 / 200) = Inr pv_example
   \<and> (\<exists>k\<in>{- 1, 0, 1}.
      dphase2freq pv_example 0 1 = Inr (claim_candidate 4 4 2 1 0 k)
      \<and> (\<forall>k'\<in>{- 1, 0, 1}.
            \<bar>claim_fbin 4 4 1 - claim_candidate 4 4 2 1 0 k\<bar>
            \<le> \<bar>claim_fbin 4 4 1 - claim_candidate 4 4 2 1 0 k'\<bar>))"
proof -
  have h: "pv_hop pv_example \<noteq> 0" by (simp add: pv_example_def)
  have hop: "pv_hop pv_example = 2" by (simp add: pv_example_def)
  from dphase2freq_nearest_candidate [OF PV_init_example h, of 1 0]
  show ?thesis by (simp add: PV_init_example hop)
qed

lemma dphase2freq_example: "dphase2freq pv_example 0 1 = Inr 0"
  using pi2_pos
  by (simp add: dphase2freq_def pv_example_def py_index_def bind_r_def Let_def)

subsection \<open>The frames of a run\<close>

lemma run_pv_frame_hop:
  "run_pv_frame calc curpos st = Inr st' \<Longrightarrow> pv_hop (run_pv_state st') = pv_hop (run_pv_state st)"
  by (auto simp: run_pv_frame_def Let_def bind_r_def split: sum.splits if_splits prod.splits)

lemma positions_done:
  assumes "0 < (h::int)" and "\<not> c < maxpos"
  shows "nat ((maxpos - c + h - 1) div h) = 0"
proof -
  have "(maxpos - c + h - 1) div h \<le> (h - 1) div h"
    using assms by (intro zdiv_mono1) auto
  also have "(h - 1) div h = 0" using assms by simp
  finally show ?thesis by simp
qed

lemma positions_step:
  assumes "0 < (h::int)" and "c < maxpos"
  shows "map (\<lambda>k. c + int k * h) [0..<nat ((maxpos - c + h - 1) div h)]
    = c # map (\<lambda>k. (c + h) + int k * h) [0..<nat ((maxpos - (c + h) + h - 1) div h)]"
proof -
  let ?x = "(maxpos - (c + h) + h - 1) div h"
  have x0: "0 \<le> ?x" using assms by (simp add: pos_imp_zdiv_nonneg_iff)
  have "maxpos - c + h - 1 = maxpos - (c + h) + h - 1 + h" by simp
  then have "(maxpos - c + h - 1) div h = (maxpos - (c + h) + h - 1 + h) div h"
    by (rule arg_cong)
  also have "\<dots> = ?x + 1" using assms by (subst div_add_self2) auto
  finally have n: "nat ((maxpos - c + h - 1) div h) = Suc (nat ?x)"
    using x0 by (simp add: nat_add_distrib)
  show ?thesis
    unfolding n by (simp add: upt_conv_Cons map_Suc_upt [symmetric] del: upt_Suc) (simp add: algebra_simps)
qed

lemma run_pv_loop_fold:
  assumes "0 < pv_hop (run_pv_state st)"
  shows "run_pv_loop calc maxpos curpos st =
    Some (fold_r (run_pv_frame calc)
      (map (\<lambda>k. curpos + int k * pv_hop (run_pv_state st))
         [0..<nat ((maxpos - curpos + pv_hop (run_pv_state st) - 1) div pv_hop (run_pv_state st))]) st)"
  using assms
proof (induction "nat (maxpos - curpos)" arbitrary: curpos st rule: less_induct)
  case less
  let ?h = "pv_hop (run_pv_state st)"
  show ?case
  proof (cases "curpos < maxpos")
    case False
    with less.prems show ?thesis
      by (subst run_pv_loop.simps) (simp add: positions_done)
  next
    case True
    note step = positions_step [OF less.prems True]
    show ?thesis
    proof (cases "run_pv_frame calc curpos st")
      case (Inl e)
      with True show ?thesis
        by (subst run_pv_loop.simps) (simp add: step bind_r_def)
    next
      case (Inr st')
      have h': "pv_hop (run_pv_state st') = ?h" using Inr by (rule run_pv_frame_hop)
      have "nat (maxpos - (curpos + ?h)) < nat (maxpos - curpos)"
        using True less.prems by simp
      from less.hyps [OF this, of st'] h' less.prems
      have "run_pv_loop calc maxpos (curpos + ?h) st' =
        Some (fold_r (run_pv_frame calc)
          (map (\<lambda>k. (curpos + ?h) + int k * ?h)
             [0..<nat ((maxpos - (curpos + ?h) + ?h - 1) div ?h)]) st')"
        by simp
      with True Inr h' show ?thesis
        by (subst run_pv_loop.simps) (simp add: step bind_r_def)
    qed
  qed
qed


lemma positions_set:
  assumes "0 < (h::int)"
  shows "set (map (\<lambda>k. c + int k * h) [0..<nat ((maxpos - c + h - 1) div h)])
    = {p. (\<exists>k::nat. p = c + int k * h) \<and> p < maxpos}"
  using assms
proof (induction "nat (maxpos - c)" arbitrary: c rule: less_induct)
  case less
  show ?case
  proof (cases "c < maxpos")
    case False
    have "c + int k * h < maxpos \<Longrightarrow> False" for k
    proof -
      assume a: "c + int k * h < maxpos"
      have "0 \<le> int k * h" using less.prems by simp
      with a False show False by linarith
    qed
    with False less.prems show ?thesis
      by (auto simp: positions_done)
  next
    case True
    have "nat (maxpos - (c + h)) < nat (maxpos - c)" using True less.prems by simp
    from less.hyps [OF this less.prems]
    have IH: "set (map (\<lambda>k. c + h + int k * h) [0..<nat ((maxpos - (c + h) + h - 1) div h)])
      = {p. (\<exists>k::nat. p = c + h + int k * h) \<and> p < maxpos}" .
    have "{p. (\<exists>k::nat. p = c + int k * h) \<and> p < maxpos}
      = insert c {p. (\<exists>k::nat. p = c + h + int k * h) \<and> p < maxpos}" (is "?L = ?R")
    proof (intro set_eqI iffI)
      fix p assume "p \<in> ?L"
      then obtain k :: nat where k: "p = c + int k * h" and lt: "p < maxpos" by auto
      show "p \<in> ?R"
      proof (cases k)
        case 0
        with k show ?thesis by simp
      next
        case (Suc j)
        with k have "p = c + h + int j * h" by (simp add: algebra_simps)
        with lt show ?thesis by auto
      qed
    next
      fix p assume "p \<in> ?R"
      then consider "p = c" | j :: nat where "p = c + h + int j * h" "p < maxpos" by auto
      then show "p \<in> ?L"
      proof cases
        case 1
        then have "p = c + int 0 * h" by simp
        with 1 True show ?thesis by blast
      next
        case 2
        then have "p = c + int (Suc j) * h" by (simp add: algebra_simps)
        with 2 show ?thesis by blast
      qed
    qed
    then show ?thesis
      unfolding positions_step [OF less.prems True] using IH by simp
  qed
qed

lemma frame_positions_mem:
  assumes "0 < pv_hop pv"
  shows "p \<in> set (frame_positions pv)
    \<longleftrightarrow> (\<exists>k::nat. p = int k * pv_hop pv) \<and> p + pv_nfft pv < pv_nsamp pv"
proof -
  from positions_set [OF assms, of 0 "pv_nsamp pv - pv_nfft pv"]
  show ?thesis unfolding frame_positions_def by auto
qed

lemma frame_positions_increasing:
  assumes "0 < pv_hop pv"
  shows "sorted_wrt (<) (frame_positions pv)"
  unfolding frame_positions_def using assms
  by (simp add: sorted_wrt_map sorted_wrt_mono_rel [OF _ sorted_wrt_upt])

lemma run_pv_eq_fold:
  assumes "0 < pv_hop pv"
  shows "run_pv calc pv =
    Some (bind_r (fold_r (run_pv_frame calc) (frame_positions pv) (run_pv_init pv))
            (\<lambda>st. Inr (run_pv_finish st)))"
proof -
  have h: "0 < pv_hop (run_pv_state (run_pv_init pv))"
    using assms by (simp add: run_pv_init_def)
  have s: "run_pv_state (run_pv_init pv) = pv" by (simp add: run_pv_init_def)
  show ?thesis
    unfolding run_pv_def run_pv_loop_fold [OF h] frame_positions_def s by simp
qed

lemma fill_row_length:
  "fill_row npeaks v = Inr r \<Longrightarrow> 0 \<le> npeaks \<Longrightarrow> length r = nat npeaks"
  by (auto simp: fill_row_def split: if_splits)

lemma run_pv_frame_result:
  assumes "run_pv_frame calc p st = Inr st'"
  shows "\<exists>f mag ph o'. run_pv_state st' = (run_pv_state st)\<lparr>pv_oldfft := o'\<rparr>
    \<and> run_allf st' = run_allf st @ [f] \<and> run_allmag st' = run_allmag st @ [mag]
    \<and> run_allph st' = run_allph st @ [ph]
    \<and> length f = nat (pv_npeaks (run_pv_state st))
    \<and> length mag = nat (pv_npeaks (run_pv_state st))
    \<and> length ph = nat (pv_npeaks (run_pv_state st))
    \<and> run_t st' = run_t st @ [(of_int p + of_int (pv_nfft (run_pv_state st)) / 2) / pv_sr (run_pv_state st)]"
  using assms
  by (auto simp: run_pv_frame_def Let_def bind_r_def fill_row_length
      split: sum.splits if_splits prod.splits)

lemma fold_run_pv_frame:
  assumes "fold_r (run_pv_frame calc) ps st = Inr st'"
  shows "run_t st' = run_t st @ map (\<lambda>p. (of_int p + of_int (pv_nfft (run_pv_state st)) / 2) / pv_sr (run_pv_state st)) ps
    \<and> length (run_allf st') = length (run_allf st) + length ps
    \<and> length (run_allmag st') = length (run_allmag st) + length ps
    \<and> length (run_allph st') = length (run_allph st) + length ps
    \<and> (rows_ok (nat (pv_npeaks (run_pv_state st))) (run_allf st) \<longrightarrow> rows_ok (nat (pv_npeaks (run_pv_state st))) (run_allf st'))
    \<and> (rows_ok (nat (pv_npeaks (run_pv_state st))) (run_allmag st) \<longrightarrow> rows_ok (nat (pv_npeaks (run_pv_state st))) (run_allmag st'))
    \<and> (rows_ok (nat (pv_npeaks (run_pv_state st))) (run_allph st) \<longrightarrow> rows_ok (nat (pv_npeaks (run_pv_state st))) (run_allph st'))
    \<and> pv_npeaks (run_pv_state st') = pv_npeaks (run_pv_state st)"
  using assms
proof (induction ps arbitrary: st)
  case Nil
  then show ?case by simp
next
  case (Cons p ps)
  from Cons.prems obtain st1 where 1: "run_pv_frame calc p st = Inr st1"
    and 2: "fold_r (run_pv_frame calc) ps st1 = Inr st'"
    by (auto simp: bind_r_def split: sum.splits)
  from run_pv_frame_result [OF 1] obtain f mag ph o' where
    r: "run_pv_state st1 = (run_pv_state st)\<lparr>pv_oldfft := o'\<rparr>"
      "run_allf st1 = run_allf st @ [f]" "run_allmag st1 = run_allmag st @ [mag]"
      "run_allph st1 = run_allph st @ [ph]"
      "length f = nat (pv_npeaks (run_pv_state st))"
      "length mag = nat (pv_npeaks (run_pv_state st))"
      "length ph = nat (pv_npeaks (run_pv_state st))"
      "run_t st1 = run_t st @ [(of_int p + of_int (pv_nfft (run_pv_state st)) / 2) / pv_sr (run_pv_state st)]"
    by blast
  from Cons.IH [OF 2] show ?case
    by (simp add: r rows_ok_def)
qed


lemma fold_run_pv_frame_ok:
  assumes "\<forall>pv' p. pv_npeaks pv' = n \<longrightarrow> frame_fits n (calc pv' p)"
    and "pv_npeaks (run_pv_state st) = n"
    and "pv_sr (run_pv_state st) \<noteq> 0"
  shows "\<exists>st'. fold_r (run_pv_frame calc) ps st = Inr st'"
  using assms(2,3)
proof (induction ps arbitrary: st)
  case Nil
  then show ?case by simp
next
  case (Cons p ps)
  let ?pv = "run_pv_state st"
  from assms(1) Cons.prems(1) have "frame_fits (pv_npeaks ?pv) (calc ?pv p)" by blast
  then obtain ff magf phf o' where c: "calc ?pv p = Inr ((ff, magf, phf), o')"
    and l: "int (length ff) \<le> pv_npeaks ?pv" "int (length magf) \<le> pv_npeaks ?pv"
      "int (length phf) \<le> pv_npeaks ?pv"
    by (auto simp: frame_fits_def split: sum.splits)
  from l have n: "\<not> pv_npeaks ?pv < 0" by linarith
  obtain st1 where 1: "run_pv_frame calc p st = Inr st1"
    using Cons.prems n l by (simp add: run_pv_frame_def Let_def c bind_r_def fill_row_def)
  from run_pv_frame_result [OF 1]
  have "pv_npeaks (run_pv_state st1) = n" "pv_sr (run_pv_state st1) \<noteq> 0"
    using Cons.prems by auto
  from Cons.IH [OF this] 1 show ?case by (simp add: bind_r_def)
qed

text \<open>
  C4, as the code has it. With a positive hop \<open>run_pv\<close> ends, and it runs the body of
  its loop once at each position of \<open>frame_positions\<close>, in this order and nowhere
  else: these are exactly the multiples \<open>k hop\<close> with \<open>position + nfft < nsamp\<close>,
  strictly below the signal's end, in increasing order. When the run returns, the time
  vector and each of the three matrices have one row per such position, each row of
  \<open>npeaks\<close> entries, and the time of a row is \<open>(position + nfft/2) / sr\<close>. It
  returns whenever every frame analysis returns lists of at most \<open>npeaks\<close> entries.
\<close>

theorem run_pv_frames:
  assumes "0 < pv_hop pv"
  shows "run_pv calc pv =
      Some (bind_r (fold_r (run_pv_frame calc) (frame_positions pv) (run_pv_init pv))
              (\<lambda>st. Inr (run_pv_finish st)))
    \<and> (\<forall>p. p \<in> set (frame_positions pv)
          \<longleftrightarrow> (\<exists>k::nat. p = int k * pv_hop pv) \<and> p + pv_nfft pv < pv_nsamp pv)
    \<and> sorted_wrt (<) (frame_positions pv)
    \<and> (\<forall>pv'. run_pv calc pv = Some (Inr pv') \<longrightarrow>
          pv_nframes pv' = int (length (frame_positions pv))
          \<and> pv_t pv' = map (\<lambda>p. (of_int p + of_int (pv_nfft pv) / 2) / pv_sr pv)
                         (frame_positions pv)
          \<and> length (pv_f pv') = length (frame_positions pv)
          \<and> length (pv_mag pv') = length (frame_positions pv)
          \<and> length (pv_ph pv') = length (frame_positions pv)
          \<and> rows_ok (nat (pv_npeaks pv)) (pv_f pv')
          \<and> rows_ok (nat (pv_npeaks pv)) (pv_mag pv')
          \<and> rows_ok (nat (pv_npeaks pv)) (pv_ph pv'))
    \<and> ((\<forall>pv' p. pv_npeaks pv' = pv_npeaks pv \<longrightarrow> frame_fits (pv_npeaks pv) (calc pv' p))
          \<and> pv_sr pv \<noteq> 0
          \<longrightarrow> (\<exists>pv'. run_pv calc pv = Some (Inr pv')))"
proof -
  note eq = run_pv_eq_fold [OF assms, of calc]
  have rows: "pv_nframes pv' = int (length (frame_positions pv))
          \<and> pv_t pv' = map (\<lambda>p. (of_int p + of_int (pv_nfft pv) / 2) / pv_sr pv)
                         (frame_positions pv)
          \<and> length (pv_f pv') = length (frame_positions pv)
          \<and> length (pv_mag pv') = length (frame_positions pv)
          \<and> length (pv_ph pv') = length (frame_positions pv)
          \<and> rows_ok (nat (pv_npeaks pv)) (pv_f pv')
          \<and> rows_ok (nat (pv_npeaks pv)) (pv_mag pv')
          \<and> rows_ok (nat (pv_npeaks pv)) (pv_ph pv')"
    if "run_pv calc pv = Some (Inr pv')" for pv'
  proof -
    from that eq obtain st' where
      f: "fold_r (run_pv_frame calc) (frame_positions pv) (run_pv_init pv) = Inr st'"
      and p: "pv' = run_pv_finish st'"
      by (auto simp: bind_r_def split: sum.splits)
    from fold_run_pv_frame [OF f] show ?thesis
      by (simp add: p run_pv_finish_def run_pv_init_def rows_ok_def)
  qed
  have ok: "\<exists>pv'. run_pv calc pv = Some (Inr pv')"
    if "\<forall>pv' p. pv_npeaks pv' = pv_npeaks pv \<longrightarrow> frame_fits (pv_npeaks pv) (calc pv' p)"
      and "pv_sr pv \<noteq> 0"
  proof -
    from that(2) have "pv_npeaks (run_pv_state (run_pv_init pv)) = pv_npeaks pv"
      "pv_sr (run_pv_state (run_pv_init pv)) \<noteq> 0"
      by (simp_all add: run_pv_init_def)
    from fold_run_pv_frame_ok [OF that(1) this, of "frame_positions pv"]
    show ?thesis unfolding eq by (auto simp: bind_r_def)
  qed
  from eq frame_positions_mem [OF assms] frame_positions_increasing [OF assms] rows ok
  show ?thesis by blast
qed

lemma frame_positions_example: "frame_positions pv_example = [0]"
  by (simp add: frame_positions_def pv_example_def)

lemma run_pv_example:
  "run_pv calc_silent pv_example =
     Some (Inr (pv_example\<lparr>pv_f := [replicate 20 0], pv_mag := [replicate 20 0],
                  pv_ph := [replicate 20 0], pv_t := [1 / 2], pv_nframes := 1\<rparr>))"
proof -
  have h: "0 < pv_hop pv_example" by (simp add: pv_example_def)
  show ?thesis
    unfolding run_pv_eq_fold [OF h] frame_positions_example
    by (simp add: run_pv_frame_def run_pv_init_def run_pv_finish_def calc_silent_def
        fill_row_def bind_r_def Let_def pv_example_def)
qed

theorem run_pv_frames_witness:
  "0 < pv_hop pv_example \<and> frame_positions pv_example = [0]
   \<and> list_all (\<lambda>p. frame_fits (pv_npeaks pv_example) (calc_silent pv_example p)) [0]
   \<and> (\<exists>pv'. run_pv calc_silent pv_example = Some (Inr pv')
        \<and> pv_nframes pv' = 1 \<and> pv_t pv' = [1 / 2] \<and> length (pv_f pv') = 1
        \<and> rows_ok 20 (pv_f pv'))"
proof -
  have h: "0 < pv_hop pv_example" by (simp add: pv_example_def)
  have v: "pv_nfft pv_example = 4" "pv_sr pv_example = 4" "pv_npeaks pv_example = 20"
    by (simp_all add: pv_example_def)
  have fits: "\<forall>pv' p. pv_npeaks pv' = pv_npeaks pv_example
      \<longrightarrow> frame_fits (pv_npeaks pv_example) (calc_silent pv' p)"
    by (simp add: frame_fits_def calc_silent_def v)
  note T = run_pv_frames [OF h, of calc_silent]
  note rows = T [THEN conjunct2, THEN conjunct2, THEN conjunct2, THEN conjunct1]
  note returns = T [THEN conjunct2, THEN conjunct2, THEN conjunct2, THEN conjunct2]
  have "pv_sr pv_example \<noteq> 0" by (simp add: v)
  with returns fits obtain pv' where r: "run_pv calc_silent pv_example = Some (Inr pv')"
    by blast
  from rows [rule_format, OF r]
  have "pv_nframes pv' = 1 \<and> pv_t pv' = [1 / 2] \<and> length (pv_f pv') = 1
          \<and> rows_ok 20 (pv_f pv')"
    by (simp add: frame_positions_example v)
  with r h frame_positions_example show ?thesis
    by (auto simp: frame_fits_def calc_silent_def v)
qed

text \<open>
  C4, as the claim states it, fails: with six samples, FFT size 4 and hop 2 the position
  2 satisfies \<open>position + nfft \<le> nsamp\<close>, and \<open>run_pv\<close> processes the frame at
  position 0 only.
\<close>

theorem run_pv_skips_last_frame:
  "claimed_positions pv_example = [0, 2]
   \<and> 2 + pv_nfft pv_example \<le> pv_nsamp pv_example
   \<and> map_option (map_sum id pv_nframes) (run_pv calc_silent pv_example) = Some (Inr 1)
   \<and> map_option (map_sum id pv_t) (run_pv calc_silent pv_example) = Some (Inr [1 / 2])"
proof -
  have u: "[0..<7] = [0, 1, 2, 3, 4, 5, 6]" by (simp add: upt_rec)
  have "claimed_positions pv_example = [0, 2]"
    by (simp add: claimed_positions_def pv_example_def u)
  then show ?thesis
    by (simp add: run_pv_example) (simp add: pv_example_def)
qed

subsection \<open>Frequencies of the harmonic variant\<close>

lemma harmonic_step_lengths:
  "harmonic_step pv famp ang dang ib (f, mag, ph) = Inr (f', mag', ph') \<Longrightarrow>
   length f' = Suc (length f) \<and> length mag' = Suc (length mag) \<and> length ph' = Suc (length ph)"
  by (auto simp: harmonic_step_def bind_r_def split: prod.splits sum.splits)

lemma harmonic_fold_lengths:
  "fold_r (harmonic_step pv famp ang dang) ibs (f, mag, ph) = Inr (f', mag', ph') \<Longrightarrow>
   length f' = length f + length ibs \<and> length mag' = length mag + length ibs
   \<and> length ph' = length ph + length ibs"
proof (induction ibs arbitrary: f mag ph)
  case Nil
  then show ?case by simp
next
  case (Cons ib ibs)
  from Cons.prems obtain f1 mag1 ph1 where
    1: "harmonic_step pv famp ang dang ib (f, mag, ph) = Inr (f1, mag1, ph1)"
    and 2: "fold_r (harmonic_step pv famp ang dang) ibs (f1, mag1, ph1) = Inr (f', mag', ph')"
    by (auto simp: bind_r_def split: sum.splits)
  from Cons.IH [OF 2] harmonic_step_lengths [OF 1] show ?case by simp
qed

lemma peak_step_positive:
  "peak_step pv famp ang dang nbin (f, mag, ph) = Inr (f', mag', ph') \<Longrightarrow>
   list_all (\<lambda>v. 0 < v) f \<Longrightarrow> length mag = length f \<Longrightarrow> length ph = length f \<Longrightarrow>
   list_all (\<lambda>v. 0 < v) f' \<and> length mag' = length f' \<and> length ph' = length f'
   \<and> length f' \<le> Suc (length f)"
  by (auto simp: peak_step_def bind_r_def split: prod.splits sum.splits if_splits)

lemma peak_fold_positive:
  "fold_r (peak_step pv famp ang dang) pk (f, mag, ph) = Inr (f', mag', ph') \<Longrightarrow>
   list_all (\<lambda>v. 0 < v) f \<Longrightarrow> length mag = length f \<Longrightarrow> length ph = length f \<Longrightarrow>
   list_all (\<lambda>v. 0 < v) f' \<and> length mag' = length f' \<and> length ph' = length f'
   \<and> length f' \<le> length f + length pk"
proof (induction pk arbitrary: f mag ph)
  case Nil
  then show ?case by simp
next
  case (Cons b pk)
  from Cons.prems(1) obtain f1 mag1 ph1 where
    1: "peak_step pv famp ang dang b (f, mag, ph) = Inr (f1, mag1, ph1)"
    and 2: "fold_r (peak_step pv famp ang dang) pk (f1, mag1, ph1) = Inr (f', mag', ph')"
    by (auto simp: bind_r_def split: sum.splits)
  from peak_step_positive [OF 1 Cons.prems(2-4)]
  have s: "list_all (\<lambda>v. 0 < v) f1" "length mag1 = length f1" "length ph1 = length f1"
    "length f1 \<le> Suc (length f)" by auto
  from Cons.IH [OF 2 s(1-3)] s(4) show ?case by simp
qed


lemma PV_init_more:
  assumes "PV_init wind x sr nfft hop npks pkthresh = Inr pv"
  shows "pv_sr pv = sr" and "pv_nfft pv = nfft" and "pv_nfft2 pv = nfft div 2"
    and "length (pv_fbin pv) = nat nfft" and "length (pv_wfbin pv) = nat nfft"
  using assms
  by (auto simp: PV_init_def Let_def split: if_splits)

lemma dphase2freq_returns:
  assumes "PV_init wind x sr nfft hop npks pkthresh = Inr pv" and "0 \<le> b" and "b < nfft"
  shows "\<exists>v. dphase2freq pv dph b = Inr v"
proof -
  note L = PV_init_more(4,5) [OF assms(1)]
  obtain w where w: "py_index (pv_wfbin pv) b = Inr w"
    using assms(2,3) by (simp add: py_index_def L)
  obtain fb where fb: "py_index (pv_fbin pv) b = Inr fb"
    using assms(2,3) by (simp add: py_index_def L)
  define freq where "freq = map (\<lambda>d. d / pv_dt pv / pi2)
     (map (\<lambda>k. dph + w + pi2 * of_int k) [- 1, 0, 1 :: int])"
  have "map (\<lambda>fq. \<bar>fb - fq\<bar>) freq \<noteq> []" by (simp add: freq_def)
  from np_argmin_least [OF this] obtain i where
    i: "i < length freq" "np_argmin (map (\<lambda>fq. \<bar>fb - fq\<bar>) freq) = Inr i"
    by auto
  have "py_index freq (int i) = Inr (freq ! i)" using i(1) by (simp add: py_index_def)
  then show ?thesis
    unfolding dphase2freq_def Let_def
    by (simp only: w fb bind_r_def sum.case freq_def [symmetric] i(2)) blast
qed

lemma py2_round_range:
  assumes "0 < c" and "c < of_int (n - 1)"
  shows "0 \<le> py2_round c \<and> py2_round c < n"
proof -
  have "c + 1 / 2 < of_int n" using assms(2) by simp
  then have "\<lfloor>c + 1 / 2\<rfloor> < n" by (simp add: floor_less_iff)
  moreover have "0 \<le> \<lfloor>c + 1 / 2\<rfloor>" using assms(1) by simp
  ultimately show ?thesis using assms(1) by (simp add: py2_round_def)
qed

lemma harmonic_bin_range:
  assumes "pv_sr pv > 0" and "pv_nfft pv > 0" and "0 \<le> nbin0" and "nbin0 < pv_nfft2 pv"
    and "0 < ipk \<longrightarrow> f \<noteq> []"
  shows "\<exists>b. harmonic_bin pv ipk nbin0 f = Inr b \<and> 0 \<le> b \<and> b < pv_nfft2 pv"
proof (cases "0 < ipk")
  case False
  with assms show ?thesis by (simp add: harmonic_bin_def)
next
  case True
  with assms(5) have f0: "py_index f 0 = Inr (f ! 0)" by (simp add: py_index_def)
  let ?c = "f ! 0 / pv_sr pv * of_int (pv_nfft pv) * (of_nat ipk + 1)"
  show ?thesis
  proof (cases "f ! 0 > fmin \<and> ?c < of_int (pv_nfft2 pv - 1)")
    case False
    with True f0 assms(3,4) show ?thesis
      by (auto simp: harmonic_bin_def bind_r_def Let_def)
  next
    case c: True
    then have "0 < f ! 0" by (simp add: fmin_def)
    then have "0 < ?c" using assms(1,2) by simp
    from c have "?c < of_int (pv_nfft2 pv - 1)" by blast
    from py2_round_range [OF \<open>0 < ?c\<close> this]
    have "0 \<le> py2_round ?c \<and> py2_round ?c < pv_nfft2 pv" .
    with True f0 c show ?thesis
      by (simp add: harmonic_bin_def bind_r_def Let_def)
  qed
qed

lemma harmonic_fold_returns:
  assumes "PV_init wind x sr nfft hop npks pkthresh = Inr pv" and "0 < sr"
    and "int (length ang) = pv_nfft2 pv" and "int (length dang) = pv_nfft2 pv"
    and "list_all (\<lambda>b. 0 \<le> b \<and> b < pv_nfft2 pv) bins"
    and "length f = i"
  shows "\<exists>r. fold_r (harmonic_step pv famp ang dang) (enumerate i bins) (f, mag, ph) = Inr r"
  using assms(5,6)
proof (induction bins arbitrary: i f mag ph)
  case Nil
  then show ?case by simp
next
  case (Cons b bins)
  note M = PV_init_more [OF assms(1)]
  have n: "0 < nfft" using PV_init_fields(1) [OF assms(1)] .
  have "\<exists>b'. harmonic_bin pv i b f = Inr b' \<and> 0 \<le> b' \<and> b' < pv_nfft2 pv"
    using Cons.prems assms(2) n by (intro harmonic_bin_range) (auto simp: M)
  then obtain b' where hb: "harmonic_bin pv i b f = Inr b'" and r: "0 \<le> b'" "b' < pv_nfft2 pv"
    by blast
  from r have a: "py_index ang b' = Inr (ang ! nat b')" "py_index dang b' = Inr (dang ! nat b')"
    using assms(3,4) by (simp_all add: py_index_def)
  have "b' < nfft" using r(2) n by (simp add: M(3))
  from dphase2freq_returns [OF assms(1) r(1) this] obtain v where
    v: "dphase2freq pv (dang ! nat b') b' = Inr v" by blast
  have step: "harmonic_step pv famp ang dang (i, b) (f, mag, ph)
    = Inr (f @ [v], mag @ [peak_mag famp b'], ph @ [ang ! nat b'])"
    by (simp add: harmonic_step_def hb a v bind_r_def)
  have "list_all (\<lambda>b. 0 \<le> b \<and> b < pv_nfft2 pv) bins" "length (f @ [v]) = Suc i"
    using Cons.prems by simp_all
  from Cons.IH [OF this] step show ?case by (simp add: bind_r_def)
qed


lemma dphase2freq_example_negative: "dphase2freq pv_example (- 1) 0 = Inr (- (1 / pi))"
proof -
  have p: "0 < pi" "1 < pi" using pi_ge_two by simp_all
  show ?thesis
    using p
    apply (simp add: dphase2freq_def pv_example_def py_index_def bind_r_def Let_def pi2_def)
    apply (simp add: field_simps abs_if)
    done
qed


lemma harmonic_example:
  "calc_pv_frame_harmonic pv_example [1, 2] [0, 1] [- 1, 0] [0, 1]
     = Inr ([- (1 / pi), 0], [2, 2], [0, 1])"
proof -
  have "\<not> fmin < - (1 / pi)" by (simp add: fmin_def) (smt (verit) pi_gt_zero divide_pos_pos)
  then show ?thesis
    by (simp add: calc_pv_frame_harmonic_def harmonic_step_def harmonic_bin_def
      dphase2freq_example dphase2freq_example_negative bind_r_def py_index_def peak_mag_def
      py_slice_def Let_def)
qed

lemma peaks_example:
  "calc_pv_frame_peaks pv_example [1, 2] [0, 1] [- 1, 0] [0, 1] = Inr ([], [], [])"
  by (simp add: calc_pv_frame_peaks_def peak_step_def dphase2freq_example
      dphase2freq_example_negative bind_r_def py_index_def)

lemma harmonic_row_example:
  "fill_row_harmonic 20 [- (1 / pi), 0] = Inr ([- (1 / pi), 0] @ replicate 18 0)"
  by (simp add: fill_row_harmonic_def)

text \<open>
  C10. Whenever the loop of \<open>PVHarmonic.calc_pv_frame\<close> returns, its three lists
  hold one entry per candidate bin, whatever the frequencies are; the loop of
  \<open>PV.calc_pv_frame\<close> returns positive frequencies only, possibly fewer than bins.
  The harmonic loop returns for an analyzer built by \<open>PV.__init__\<close> with a positive
  sample rate, arrays of \<open>nfft2\<close> entries and bins within them. And a frequency that
  is not positive does come out: on the example analyzer, with bins 0 and 1 and phase
  differences -1 and 0, the harmonic loop returns the frequencies \<open>-1/\<pi>\<close> and 0,
  which \<open>PVHarmonic.run_pv\<close> copies into the row of the matrix, where the free-peak
  loop returns no peak at all.
\<close>

theorem harmonic_frame_keeps_every_bin:
  "(\<forall>f mag ph. calc_pv_frame_harmonic pv famp ang dang bins = Inr (f, mag, ph)
      \<longrightarrow> length f = length bins \<and> length mag = length bins \<and> length ph = length bins)
   \<and> (\<forall>f mag ph. calc_pv_frame_peaks pv famp ang dang pk = Inr (f, mag, ph)
      \<longrightarrow> list_all (\<lambda>v. 0 < v) f \<and> length f \<le> length pk
          \<and> length mag = length f \<and> length ph = length f)
   \<and> (PV_init wind x sr nfft hop npks pkthresh = Inr pv \<and> 0 < sr
        \<and> int (length ang) = pv_nfft2 pv \<and> int (length dang) = pv_nfft2 pv
        \<and> list_all (\<lambda>b. 0 \<le> b \<and> b < pv_nfft2 pv) bins
      \<longrightarrow> (\<exists>r. calc_pv_frame_harmonic pv famp ang dang bins = Inr r))
   \<and> calc_pv_frame_harmonic pv_example [1, 2] [0, 1] [- 1, 0] [0, 1]
        = Inr ([- (1 / pi), 0], [2, 2], [0, 1])
   \<and> - (1 / pi) < 0
   \<and> fill_row_harmonic 20 [- (1 / pi), 0] = Inr ([- (1 / pi), 0] @ replicate 18 0)
   \<and> calc_pv_frame_peaks pv_example [1, 2] [0, 1] [- 1, 0] [0, 1] = Inr ([], [], [])"
proof -
  have a: "length f = length bins \<and> length mag = length bins \<and> length ph = length bins"
    if "calc_pv_frame_harmonic pv famp ang dang bins = Inr (f, mag, ph)" for f mag ph
    using harmonic_fold_lengths [OF that [unfolded calc_pv_frame_harmonic_def]] by simp
  have b: "list_all (\<lambda>v. 0 < v) f \<and> length f \<le> length pk
          \<and> length mag = length f \<and> length ph = length f"
    if "calc_pv_frame_peaks pv famp ang dang pk = Inr (f, mag, ph)" for f mag ph
    using peak_fold_positive [OF that [unfolded calc_pv_frame_peaks_def]] by simp
  have c: "\<exists>r. calc_pv_frame_harmonic pv famp ang dang bins = Inr r"
    if "PV_init wind x sr nfft hop npks pkthresh = Inr pv" "0 < sr"
       "int (length ang) = pv_nfft2 pv" "int (length dang) = pv_nfft2 pv"
       "list_all (\<lambda>b. 0 \<le> b \<and> b < pv_nfft2 pv) bins"
    unfolding calc_pv_frame_harmonic_def
    using that by (intro harmonic_fold_returns) auto
  have n: "- (1 / pi) < 0" by simp
  from a b c harmonic_example peaks_example harmonic_row_example n show ?thesis by blast
qed

theorem harmonic_frame_keeps_every_bin_witness:
  "PV_init rect_window [0, 1, 0, - 1, 0, 1] 4 4 None 20 (1 / 200) = Inr pv_example
   \<and> (\<exists>f mag ph.
        calc_pv_frame_harmonic pv_example [1, 2] [0, 1] [- 1, 0] [0, 1] = Inr (f, mag, ph)
        \<and> length f = 2 \<and> length mag = 2 \<and> length ph = 2 \<and> f ! 0 < 0)
   \<and> (\<exists>f mag ph.
        calc_pv_frame_peaks pv_example [1, 2] [0, 1] [- 1, 0] [0, 1] = Inr (f, mag, ph)
        \<and> list_all (\<lambda>v. 0 < v) f)"
proof -
  note T = harmonic_frame_keeps_every_bin
    [of pv_example "[1, 2]" "[0, 1]" "[- 1, 0]" "[0, 1]" "[0, 1]" rect_window
      "[0, 1, 0, - 1, 0, 1]" 4 4 None 20 "1 / 200"]
  note lens = T [THEN conjunct1]
  note pos = T [THEN conjunct2, THEN conjunct1]
  note ret = T [THEN conjunct2, THEN conjunct2, THEN conjunct1]
  note ex = T [THEN conjunct2, THEN conjunct2, THEN conjunct2, THEN conjunct1]
  note exp = T [THEN conjunct2, THEN conjunct2, THEN conjunct2, THEN conjunct2,
    THEN conjunct2, THEN conjunct2]
  have "int (length [0::real, 1]) = pv_nfft2 pv_example"
    "int (length [- 1::real, 0]) = pv_nfft2 pv_example"
    "list_all (\<lambda>b. 0 \<le> b \<and> b < pv_nfft2 pv_example) [0, 1]"
    by (simp_all add: pv_example_def)
  with ret PV_init_example
  obtain r where r: "calc_pv_frame_harmonic pv_example [1, 2] [0, 1] [- 1, 0] [0, 1] = Inr r"
    by auto
  obtain f mag ph where fr: "r = (f, mag, ph)" by (cases r) auto
  from lens [rule_format, OF r [unfolded fr]]
  have l: "length f = 2" "length mag = 2" "length ph = 2" by simp_all
  from r fr ex have "f = [- (1 / pi), 0]" by simp
  then have "f ! 0 < 0" by simp
  with r fr l have h: "\<exists>f mag ph.
     calc_pv_frame_harmonic pv_example [1, 2] [0, 1] [- 1, 0] [0, 1] = Inr (f, mag, ph)
     \<and> length f = 2 \<and> length mag = 2 \<and> length ph = 2 \<and> f ! 0 < 0"
    by blast
  from pos [rule_format, OF exp] exp
  have p: "\<exists>f mag ph.
     calc_pv_frame_peaks pv_example [1, 2] [0, 1] [- 1, 0] [0, 1] = Inr (f, mag, ph)
        \<and> list_all (\<lambda>v. 0 < v) f"
    by blast
  from PV_init_example h p show ?thesis by blast
qed

subsection \<open>The length of the resynthesis\<close>

lemma slice_add_length:
  assumes "slice_add w st wi = Inr w'"
  shows "length w' = length w"
proof -
  define a where "a = min (nat st) (length w)"
  define b where "b = min (nat (st + int (length wi))) (length w)"
  have ab: "a \<le> b" "b \<le> length w" by (auto simp: a_def b_def)
  from assms have "w' = take a w @ map2 (+) (take (b - a) (drop a w)) wi @ drop b w
      \<and> length wi = length (take (b - a) (drop a w))
    \<or> w' = take a w @ map (\<lambda>v. v + hd wi) (take (b - a) (drop a w)) @ drop b w"
    unfolding slice_add_def Let_def a_def [symmetric] b_def [symmetric]
    by (auto split: if_splits)
  then show ?thesis using ab by auto
qed

lemma synth_part_length: "synth_part sr hop p w = Inr w' \<Longrightarrow> length w' = length w"
  by (auto simp: synth_part_def bind_r_def slice_add_length split: sum.splits prod.splits if_splits)

lemma fold_synth_part_length:
  "fold_r (synth_part sr hop) ps w = Inr w' \<Longrightarrow> length w' = length w"
proof (induction ps arbitrary: w)
  case Nil
  then show ?case by simp
next
  case (Cons p ps)
  from Cons.prems obtain w1 where 1: "synth_part sr hop p w = Inr w1"
    and 2: "fold_r (synth_part sr hop) ps w1 = Inr w'"
    by (auto simp: bind_r_def split: sum.splits)
  from Cons.IH [OF 2] synth_part_length [OF 1] show ?case by simp
qed

lemma SinSum_synth_length:
  assumes "SinSum_synth sr hop ss = Inr w"
  shows "ss_end ss \<noteq> [] \<and> int (length w) = (Max (set (ss_end ss)) + 1) * hop"
proof -
  from assms have e: "ss_end ss \<noteq> []" and n: "\<not> (Max (set (ss_end ss)) + 1) * hop < 0"
    and f: "fold_r (synth_part sr hop) (ss_partial ss)
              (replicate (nat ((Max (set (ss_end ss)) + 1) * hop)) 0) = Inr w"
    by (auto simp: SinSum_synth_def Let_def split: if_splits)
  from fold_synth_part_length [OF f] n e show ?thesis by simp
qed

lemma argmax_from_bound: "bi < i \<Longrightarrow> argmax_from best bi i ys < i + length ys"
proof (induction ys arbitrary: best bi i)
  case Nil
  then show ?case by simp
next
  case (Cons y ys)
  have 1: "argmax_from y i (Suc i) ys < Suc i + length ys"
    by (rule Cons.IH) simp
  have 2: "argmax_from best bi (Suc i) ys < Suc i + length ys"
    using Cons.prems by (intro Cons.IH) simp
  from 1 2 show ?case by simp
qed

lemma np_argmax_bound:
  assumes "xs \<noteq> []"
  shows "\<exists>i<length xs. np_argmax xs = Inr i"
proof -
  from assms obtain y ys where xs: "xs = y # ys" by (cases xs) auto
  have "argmax_from y 0 1 ys < 1 + length ys" by (rule argmax_from_bound) simp
  then show ?thesis by (simp add: xs)
qed

lemma length_cumsum_from: "length (cumsum_from a vs) = length vs"
  by (induction vs arbitrary: a) auto

lemma py2_round_of_int: "py2_round (of_int z) = z"
  by (simp add: py2_round_def) linarith

lemma Min_Max_mono_upt:
  fixes g :: "nat \<Rightarrow> real"
  assumes "\<And>j k. j \<le> k \<Longrightarrow> g j \<le> g k"
  shows "Min (set (map g [0..<Suc m])) = g 0" and "Max (set (map g [0..<Suc m])) = g m"
proof -
  have s: "set (map g [0..<Suc m]) = g ` {0..<Suc m}"
    unfolding set_map set_upt ..
  have m0: "g 0 \<in> g ` {0..<Suc m}" and mm: "g m \<in> g ` {0..<Suc m}"
    by (rule imageI, simp)+
  show "Min (set (map g [0..<Suc m])) = g 0"
    unfolding s
  proof (rule Min_eqI)
    show "finite (g ` {0..<Suc m})" by simp
    show "g 0 \<le> y" if "y \<in> g ` {0..<Suc m}" for y
      using that assms by auto
    show "g 0 \<in> g ` {0..<Suc m}" by (rule m0)
  qed
  show "Max (set (map g [0..<Suc m])) = g m"
    unfolding s
  proof (rule Max_eqI)
    show "finite (g ` {0..<Suc m})" by simp
    show "y \<le> g m" if "y \<in> g ` {0..<Suc m}" for y
      using that assms by (auto simp: less_Suc_eq_le)
    show "g m \<in> g ` {0..<Suc m}" by (rule mm)
  qed
qed

lemma RegPartial_synth_ok:
  assumes "0 < hop" and "hop < s" and "rp_f p \<noteq> []"
    and "length (rp_mag p) = length (rp_f p)" and "length (rp_ph p) = length (rp_f p)"
  shows "\<exists>wi. RegPartial_synth (PyInt s) hop p = Inr (wi, (rp_start_idx p - 1) * hop)
    \<and> int (length wi) = (int (length (rp_f p)) + 1) * hop"
proof -
  let ?n = "length (rp_f p)"
  let ?st = "rp_start_idx p"
  have s0: "0 < s" using assms(1,2) by simp
  have sv: "num_val (PyInt s) = of_int s" by (simp add: num_val_def)
  from assms(3,4) have "rp_mag p \<noteq> []" by auto
  from np_argmax_bound [OF this] obtain iref where
    iref: "iref < ?n" "np_argmax (rp_mag p) = Inr iref" using assms(4) by auto
  have ph: "py_index (rp_ph p) (int iref) = Inr (rp_ph p ! iref)"
    using iref(1) assms(5) by (simp add: py_index_def)
  have f0: "py_index (rp_f p) 0 = Inr (rp_f p ! 0)"
    and fl: "py_index (rp_f p) (- 1) = Inr (rp_f p ! nat (int ?n - 1))"
    using assms(3) by (simp_all add: py_index_def Suc_le_eq)
  have hs: "py2_div hop (PyInt s) = Inr 0"
    using assms(1,2) s0 by (simp add: py2_div_def)
  define g where "g k = real_of_int (?st - 1 + int k) * of_int hop / of_int s" for k
  have gm: "g j \<le> g k" if "j \<le> k" for j k
    using that assms(1) s0 unfolding g_def
    by (intro divide_right_mono mult_right_mono) auto
  have tfr: "map (\<lambda>k. of_int (?st - 1 + int k) * of_int hop / num_val (PyInt s)) [0..<?n + 2]
    = map g [0..<Suc (Suc ?n)]"
    by (simp add: g_def sv)
  have mn: "Min (set (map g [0..<Suc (Suc ?n)])) = g 0"
    and mx: "Max (set (map g [0..<Suc (Suc ?n)])) = g (Suc ?n)"
    using Min_Max_mono_upt [of g "Suc ?n"] gm by auto
  have r1: "py2_round ((g 0 - 0) * num_val (PyInt s)) = (?st - 1) * hop"
  proof -
    have "(g 0 - 0) * num_val (PyInt s) = of_int ((?st - 1) * hop)"
      using s0 by (simp add: g_def sv)
    then show ?thesis by (simp only: py2_round_of_int)
  qed
  have r2: "py2_round ((g (Suc ?n) + 0) * num_val (PyInt s)) = (?st + int ?n) * hop"
  proof -
    have "(g (Suc ?n) + 0) * num_val (PyInt s) = of_int ((?st + int ?n) * hop)"
      using s0 by (simp add: g_def sv)
    then show ?thesis by (simp only: py2_round_of_int)
  qed
  define t where "t = map (\<lambda>k. real_of_int k / num_val (PyInt s))
     (int_range ((?st - 1) * hop) ((?st + int ?n) * hop))"
  have lt: "int (length t) = (int ?n + 1) * hop"
  proof -
    have "(?st + int ?n) * hop - (?st - 1) * hop = (int ?n + 1) * hop"
      by (simp add: algebra_simps)
    moreover have "0 \<le> (int ?n + 1) * hop" using assms(1) by simp
    ultimately show ?thesis by (simp add: t_def int_range_def)
  qed
  define ffr where "ffr = rp_f p ! 0 # rp_f p @ [rp_f p ! nat (int ?n - 1)]"
  define mfr where "mfr = 0 # rp_mag p @ [0]"
  define fi where "fi = map (\<lambda>v. interp_at v (zip (map g [0..<Suc (Suc ?n)]) ffr)) t"
  define mi where "mi = map (\<lambda>v. interp_at v (zip (map g [0..<Suc (Suc ?n)]) mfr)) t"
  have i1: "np_interp t (map g [0..<Suc (Suc ?n)]) ffr = Inr fi"
    by (simp add: np_interp_def ffr_def fi_def)
  have i2: "np_interp t (map g [0..<Suc (Suc ?n)]) mfr = Inr mi"
    using assms(4) by (simp add: np_interp_def mfr_def mi_def)
  define phs where "phs = np_cumsum (map (\<lambda>v. 2 * pi * v / num_val (PyInt s)) fi)"
  have lp: "length phs = length t"
    by (simp add: phs_def np_cumsum_def length_cumsum_from fi_def)
  have "(int iref + 1) * hop \<le> int ?n * hop"
    using iref(1) assms(1) by (intro mult_right_mono) auto
  moreover have "int ?n * hop < (int ?n + 1) * hop" using assms(1) by (simp add: algebra_simps)
  ultimately have sr: "0 \<le> (int iref + 1) * hop" "(int iref + 1) * hop < int (length phs)"
    using assms(1) unfolding lp lt by simp_all
  then have pr: "py_index phs ((int iref + 1) * hop) = Inr (phs ! nat ((int iref + 1) * hop))"
    by (simp add: py_index_def)
  define wi where "wi = map2 (\<lambda>m q. m * cos q) mi
     (map (\<lambda>v. v - phs ! nat ((int iref + 1) * hop) + rp_ph p ! iref) phs)"
  have lw: "int (length wi) = (int ?n + 1) * hop"
    by (simp add: wi_def mi_def lp lt)
  have "RegPartial_synth (PyInt s) hop p = Inr (wi, (?st - 1) * hop)"
    unfolding RegPartial_synth_def Let_def
    by (simp only: iref(2) ph f0 fl hs bind_r_def sum.case tfr mn mx r1 r2
        t_def [symmetric] ffr_def [symmetric] mfr_def [symmetric] i1 i2
        phs_def [symmetric] pr wi_def [symmetric])
  with lw show ?thesis by blast
qed


lemma slice_add_ok:
  assumes "0 \<le> st" and "st + int (length wi) \<le> int (length w)"
  shows "\<exists>w'. slice_add w st wi = Inr w'"
proof -
  have a: "min (nat st) (length w) = nat st" using assms by simp
  have b: "min (nat (st + int (length wi))) (length w) = nat (st + int (length wi))"
    using assms by simp
  have "nat (st + int (length wi)) - nat st = length wi" using assms(1) by simp
  moreover have "length wi \<le> length w - nat st" using assms by simp
  ultimately have "length (take (nat (st + int (length wi)) - nat st) (drop (nat st) w))
    = length wi" by simp
  then show ?thesis unfolding slice_add_def Let_def a b by simp
qed

lemma synth_part_ok:
  assumes "0 < hop" and "hop < s" and "track_fits hop (length w) p"
  shows "\<exists>w'. synth_part (PyInt s) hop p w = Inr w'"
proof -
  from assms(3) have t: "rp_f p \<noteq> []" "length (rp_mag p) = length (rp_f p)"
    "length (rp_ph p) = length (rp_f p)"
    "(rp_start_idx p + int (length (rp_f p))) * hop \<le> int (length w)"
    by (simp_all add: track_fits_def)
  from RegPartial_synth_ok [OF assms(1,2) t(1-3)] obtain wi where
    r: "RegPartial_synth (PyInt s) hop p = Inr (wi, (rp_start_idx p - 1) * hop)"
    and l: "int (length wi) = (int (length (rp_f p)) + 1) * hop" by blast
  show ?thesis
  proof (cases "0 \<le> (rp_start_idx p - 1) * hop")
    case False
    then show ?thesis by (simp add: synth_part_def r bind_r_def)
  next
    case True
    have "(rp_start_idx p - 1) * hop + int (length wi)
      = (rp_start_idx p + int (length (rp_f p))) * hop"
      by (simp add: l algebra_simps)
    with t(4) have "(rp_start_idx p - 1) * hop + int (length wi) \<le> int (length w)" by simp
    from slice_add_ok [OF True this] True show ?thesis
      by (simp add: synth_part_def r bind_r_def)
  qed
qed

lemma fold_synth_part_ok:
  assumes "0 < hop" and "hop < s" and "list_all (track_fits hop (length w)) ps"
  shows "\<exists>w'. fold_r (synth_part (PyInt s) hop) ps w = Inr w'"
  using assms(3)
proof (induction ps arbitrary: w)
  case Nil
  then show ?case by simp
next
  case (Cons p ps)
  from Cons.prems have "track_fits hop (length w) p" by simp
  from synth_part_ok [OF assms(1,2) this] obtain w1 where
    1: "synth_part (PyInt s) hop p w = Inr w1" by blast
  from synth_part_length [OF 1] Cons.prems
  have "list_all (track_fits hop (length w1)) ps" by simp
  from Cons.IH [OF this] 1 show ?case by (simp add: bind_r_def)
qed

lemma synth_ready_fits:
  assumes "synth_ready ss" and "0 < hop"
  shows "ss_end ss \<noteq> []" and "0 \<le> (Max (set (ss_end ss)) + 1) * hop"
    and "list_all (track_fits hop (nat ((Max (set (ss_end ss)) + 1) * hop))) (ss_partial ss)"
proof -
  let ?M = "Max (set (ss_end ss))"
  from assms(1) have c: "length (ss_st ss) = length (ss_partial ss)"
    "length (ss_end ss) = length (ss_partial ss)"
    "list_all track_continuous (zip (ss_partial ss) (zip (ss_st ss) (ss_end ss)))"
    and ne: "ss_partial ss \<noteq> []"
    and st: "map rp_start_idx (ss_partial ss) = ss_st ss"
    and nn: "list_all (\<lambda>s. 0 \<le> s) (ss_st ss)"
    and nf: "list_all (\<lambda>p. rp_f p \<noteq> []) (ss_partial ss)"
    by (simp_all add: synth_ready_def continuity_def)
  show e: "ss_end ss \<noteq> []" using c(2) ne by auto
  have each: "rp_f p \<noteq> [] \<and> length (rp_mag p) = length (rp_f p)
      \<and> length (rp_ph p) = length (rp_f p)
      \<and> 0 \<le> rp_start_idx p
      \<and> rp_start_idx p + int (length (rp_f p)) \<le> ?M + 1"
    if "p \<in> set (ss_partial ss)" for p
  proof -
    from that obtain i where i: "i < length (ss_partial ss)" "p = ss_partial ss ! i"
      by (auto simp: in_set_conv_nth)
    from c i(1) have "track_continuous (ss_partial ss ! i, ss_st ss ! i, ss_end ss ! i)"
      by (simp add: list_all_length)
    then have tc: "ss_end ss ! i - ss_st ss ! i + 1 = int (length (rp_f p))"
      "length (rp_mag p) = length (rp_f p)" "length (rp_ph p) = length (rp_f p)"
      by (simp_all add: track_continuous_def i(2))
    have s: "rp_start_idx p = ss_st ss ! i"
      using st i by (metis nth_map)
    have "ss_end ss ! i \<in> set (ss_end ss)" using i(1) c(2) by simp
    then have "ss_end ss ! i \<le> ?M" by simp
    moreover have "0 \<le> ss_st ss ! i" using nn i(1) c(1) by (simp add: list_all_length)
    moreover have "rp_f p \<noteq> []" using nf that by (simp add: list_all_iff)
    ultimately show ?thesis using tc s by simp
  qed
  from ne obtain p where p: "p \<in> set (ss_partial ss)" by (cases "ss_partial ss") auto
  from each [OF p] have M: "0 \<le> ?M + 1" by linarith
  then show n0: "0 \<le> (?M + 1) * hop" using assms(2) by simp
  have "track_fits hop (nat ((?M + 1) * hop)) q" if "q \<in> set (ss_partial ss)" for q
  proof -
    from each [OF that]
    have "(rp_start_idx q + int (length (rp_f q))) * hop \<le> (?M + 1) * hop"
      using assms(2) by (intro mult_right_mono) auto
    with each [OF that] n0 show ?thesis by (simp add: track_fits_def)
  qed
  then show "list_all (track_fits hop (nat ((?M + 1) * hop))) (ss_partial ss)"
    by (simp add: list_all_iff)
qed

lemma SinSum_synth_ok:
  assumes "synth_ready ss" and "0 < hop" and "hop < s"
  shows "\<exists>w. SinSum_synth (PyInt s) hop ss = Inr w"
proof -
  note R = synth_ready_fits [OF assms(1,2)]
  from R(3) have "list_all (track_fits hop
      (length (replicate (nat ((Max (set (ss_end ss)) + 1) * hop)) (0::real)))) (ss_partial ss)"
    by simp
  from fold_synth_part_ok [OF assms(2,3) this] R(1,2) show ?thesis
    by (simp add: SinSum_synth_def Let_def)
qed


lemma RegPartial_synth_example:
  "RegPartial_synth (PyInt 4) 2 \<lparr>rp_start_idx = 1, rp_f = [1], rp_mag = [1], rp_ph = [0]\<rparr>
     = Inr ([0, 0, 1, 0], 0)"
proof -
  have u: "[0..<3] = [0, 1, 2]" "[0..<4] = [0, 1, 2, 3]" by (simp_all add: upt_rec)
  have r: "py2_round 0 = 0" "py2_round 4 = 4" by (simp_all add: py2_round_def)
  show ?thesis
    by (simp add: RegPartial_synth_def bind_r_def py_index_def py2_div_def num_val_def
        Let_def u r int_range_def np_interp_def np_cumsum_def)
qed

text \<open>
  C3, as the code has it. With no track, \<open>SinSum.synth\<close> raises ValueError (the
  \<open>max\<close> of an empty list) and returns no buffer. Whenever it returns a waveform,
  there is a track and the waveform has \<open>(max end + 1) hop\<close> samples. And it does
  return one, of this length, for every well-formed set of tracks with an integer
  sample rate above a positive hop.
\<close>

theorem SinSum_synth_length_or_raise:
  "(ss_end ss = [] \<longrightarrow> SinSum_synth sr hop ss = Inl ValueError)
   \<and> (\<forall>w. SinSum_synth sr hop ss = Inr w
        \<longrightarrow> ss_end ss \<noteq> [] \<and> int (length w) = (Max (set (ss_end ss)) + 1) * hop)
   \<and> (synth_ready ss \<and> 0 < hop \<and> hop < s
        \<longrightarrow> (\<exists>w. SinSum_synth (PyInt s) hop ss = Inr w
              \<and> int (length w) = (Max (set (ss_end ss)) + 1) * hop))"
proof -
  have a: "SinSum_synth sr hop ss = Inl ValueError" if "ss_end ss = []"
    using that by (simp add: SinSum_synth_def)
  have c: "\<exists>w. SinSum_synth (PyInt s) hop ss = Inr w
      \<and> int (length w) = (Max (set (ss_end ss)) + 1) * hop"
    if "synth_ready ss" "0 < hop" "hop < s"
  proof -
    from SinSum_synth_ok [OF that] obtain w where w: "SinSum_synth (PyInt s) hop ss = Inr w"
      by blast
    from SinSum_synth_length [OF w] w show ?thesis by blast
  qed
  from a c SinSum_synth_length show ?thesis by blast
qed

theorem SinSum_synth_length_or_raise_witness:
  "synth_ready synth_example
   \<and> (\<exists>w. SinSum_synth (PyInt 4) 2 synth_example = Inr w \<and> length w = 4)
   \<and> ss_end (SinSum_init 4 4 2) = []
   \<and> SinSum_synth (PyInt 4) 2 (SinSum_init 4 4 2) = Inl ValueError"
proof -
  have r: "synth_ready synth_example"
    by (simp add: synth_ready_def synth_example_def continuity_def track_continuous_def)
  have m: "Max (set (ss_end synth_example)) = 1" by (simp add: synth_example_def)
  from SinSum_synth_length_or_raise [of synth_example "PyInt 4" 2 4] r
  have 1: "\<exists>w. SinSum_synth (PyInt 4) 2 synth_example = Inr w \<and> length w = 4"
    by (simp add: m)
  have e: "ss_end (SinSum_init 4 4 2) = []" by (simp add: SinSum_init_def)
  from SinSum_synth_length_or_raise [of "SinSum_init 4 4 2" "PyInt 4" 2 4] e
  have 2: "SinSum_synth (PyInt 4) 2 (SinSum_init 4 4 2) = Inl ValueError" by blast
  from r 1 e 2 show ?thesis by blast
qed

text \<open>
  C3, as the claim states it, fails: on the SinSum just constructed, which has no track,
  \<open>synth\<close> raises ValueError.
\<close>

theorem SinSum_synth_no_tracks_raises:
  "ss_partial (SinSum_init 44100 1024 512) = []
   \<and> SinSum_synth (PyInt 44100) 512 (SinSum_init 44100 1024 512) = Inl ValueError"
  by (simp add: SinSum_synth_def SinSum_init_def)

subsection \<open>Reading a track outside its frames\<close>

text \<open>
  C5. The claim: at every frame outside a track's range, before its start and after its
  end alike, \<open>get_freq_at_frame\<close> and \<open>get_mag_at_frame\<close> return nan rather than
  fail. The code: a track that starts at frame 0 and holds one point, read at frame 1
  (after its end), raises IndexError from both; read at frame -1 (before its start) it
  returns nan from both.
\<close>

theorem get_at_frame_after_end_raises:
  "get_freq_at_frame \<lparr>rp_start_idx = 0, rp_f = [100], rp_mag = [1], rp_ph = [0]\<rparr> 1
      = Inl IndexError
   \<and> get_mag_at_frame \<lparr>rp_start_idx = 0, rp_f = [100], rp_mag = [1], rp_ph = [0]\<rparr> 1
      = Inl IndexError
   \<and> get_freq_at_frame \<lparr>rp_start_idx = 0, rp_f = [100], rp_mag = [1], rp_ph = [0]\<rparr> (- 1)
      = Inr NaN
   \<and> get_mag_at_frame \<lparr>rp_start_idx = 0, rp_f = [100], rp_mag = [1], rp_ph = [0]\<rparr> (- 1)
      = Inr NaN"
  by (simp add: get_freq_at_frame_def get_mag_at_frame_def py_index_def bind_r_def)

end
